theory Spec2Isabelle
  imports Main "HOL-Library.AList"
begin

section \<open>Path strings\<close>

text \<open>
  The program runs on POSIX paths: Python \<^verbatim>\<open>str\<close> values handled by \<^verbatim>\<open>os.path\<close>
  (\<^verbatim>\<open>posixpath\<close>). A path is a \<^typ>\<open>string\<close> whose characters are the code points
  below 256 (ASCII and Latin-1, written \<open>CHR 0xC9\<close> beyond ASCII); the separator is
  \<open>/\<close> and the extension separator is \<open>.\<close>.

  \<^verbatim>\<open>str.rfind(c)\<close>: the highest index of \<open>c\<close>, or \<open>-1\<close>.
\<close>

definition rfind :: "char \<Rightarrow> string \<Rightarrow> int" where
  "rfind c s =
     (if c \<in> set s
      then int (length s) - 1 - int (length (takeWhile (\<lambda>x. x \<noteq> c) (rev s)))
      else - 1)"

text \<open>
  \<^verbatim>\<open>os.path.splitext\<close> (\<^verbatim>\<open>genericpath._splitext\<close>): the loop skips the leading dots
  of the final component.
  \<^verbatim>\<open>
      filenameIndex = sepIndex + 1
      while filenameIndex < dotIndex:
          if p[filenameIndex:filenameIndex+1] != extsep:
              return p[:dotIndex], p[dotIndex:]
          filenameIndex += 1
  return p, p[:0]
  \<close>
\<close>

function splitext_scan :: "string \<Rightarrow> nat \<Rightarrow> nat \<Rightarrow> string \<times> string" where
  "splitext_scan p filenameIndex dotIndex =
     (if filenameIndex < dotIndex
      then (if p ! filenameIndex \<noteq> CHR ''.''
            then (take dotIndex p, drop dotIndex p)
            else splitext_scan p (filenameIndex + 1) dotIndex)
      else (p, []))"
  by pat_completeness auto
termination
  by (relation "measure (\<lambda>(p, f, d). d - f)") auto

declare splitext_scan.simps [simp del]

definition splitext :: "string \<Rightarrow> string \<times> string" where
  "splitext p =
     (let sepIndex = rfind CHR ''/'' p;
          dotIndex = rfind CHR ''.'' p
      in if dotIndex > sepIndex
         then splitext_scan p (nat (sepIndex + 1)) (nat dotIndex)
         else (p, []))"

text \<open>\<^verbatim>\<open>os.path.basename(p)\<close> is \<^verbatim>\<open>p[p.rfind('/') + 1:]\<close>.\<close>

definition basename :: "string \<Rightarrow> string" where
  "basename p = drop (nat (rfind CHR ''/'' p + 1)) p"

text \<open>
  \<^verbatim>\<open>os.path.join(a, b)\<close> with two arguments: an absolute \<open>b\<close> replaces \<open>a\<close>; otherwise
  \<open>b\<close> is appended, after a separator unless \<open>a\<close> is empty or already ends with one.
\<close>

definition os_path_join :: "string \<Rightarrow> string \<Rightarrow> string" where
  "os_path_join a b =
     (if take 1 b = ''/'' then b
      else if a = [] \<or> last a = CHR ''/'' then a @ b
      else a @ ''/'' @ b)"

text \<open>
  \<^verbatim>\<open>str.lower()\<close>. Among the code points below 256 the cased capitals are \<open>A\<close> to \<open>Z\<close>
  and \<open>0xC0\<close> to \<open>0xDE\<close> without the multiplication sign \<open>0xD7\<close>; each is lowered to
  the code point 32 above it, and every other code point is left as it is.
\<close>

definition upper_letters :: string where
  "upper_letters = ''ABCDEFGHIJKLMNOPQRSTUVWXYZ'' @ [
        CHR 0xC0, CHR 0xC1, CHR 0xC2, CHR 0xC3, CHR 0xC4, CHR 0xC5,
        CHR 0xC6, CHR 0xC7, CHR 0xC8, CHR 0xC9, CHR 0xCA, CHR 0xCB,
        CHR 0xCC, CHR 0xCD, CHR 0xCE, CHR 0xCF, CHR 0xD0, CHR 0xD1,
        CHR 0xD2, CHR 0xD3, CHR 0xD4, CHR 0xD5, CHR 0xD6, CHR 0xD8,
        CHR 0xD9, CHR 0xDA, CHR 0xDB, CHR 0xDC, CHR 0xDD, CHR 0xDE]"

definition lower_letters :: string where
  "lower_letters = ''abcdefghijklmnopqrstuvwxyz'' @ [
        CHR 0xE0, CHR 0xE1, CHR 0xE2, CHR 0xE3, CHR 0xE4, CHR 0xE5,
        CHR 0xE6, CHR 0xE7, CHR 0xE8, CHR 0xE9, CHR 0xEA, CHR 0xEB,
        CHR 0xEC, CHR 0xED, CHR 0xEE, CHR 0xEF, CHR 0xF0, CHR 0xF1,
        CHR 0xF2, CHR 0xF3, CHR 0xF4, CHR 0xF5, CHR 0xF6, CHR 0xF8,
        CHR 0xF9, CHR 0xFA, CHR 0xFB, CHR 0xFC, CHR 0xFD, CHR 0xFE]"

definition lower_char :: "char \<Rightarrow> char" where
  "lower_char c =
     (case map_of (zip upper_letters lower_letters) c of
        Some l \<Rightarrow> l
      | None \<Rightarrow> c)"

definition lower :: "string \<Rightarrow> string" where
  "lower s = map lower_char s"

text \<open>
  \<^verbatim>\<open>str(counter)\<close> inside the f-string: the decimal digits of a natural number (the
  counter starts at 1 and only grows; Python integers do not overflow).
\<close>

definition digit_char :: "nat \<Rightarrow> char" where
  "digit_char d = ''0123456789'' ! d"

fun str_nat :: "nat \<Rightarrow> string" where
  "str_nat n = (if n < 10 then [digit_char n] else str_nat (n div 10) @ [digit_char (n mod 10)])"

declare str_nat.simps [simp del]

section \<open>The file system and the rest of the world\<close>

text \<open>
  A file system entry is a regular file (its bytes, its modification time, and whether
  its mode lets the process open it for writing) or a directory (whether entries may be
  created and removed in it). Entries are keyed by the list of path components from the
  root; the root itself is always a writable directory. There are no symbolic links and
  a single device, and the process is not privileged: the modes bind it.
\<close>

datatype node = File (content: string) (mtime: nat) (file_writable: bool) | Dir (writable: bool)

type_synonym key = "string list"

type_synonym fs = "(key \<times> node) list"

text \<open>
  The exceptions of the model: the subclasses of \<^verbatim>\<open>OSError\<close> the calls raise (two of them
  named by their \<^verbatim>\<open>errno\<close>), the two of \<^verbatim>\<open>shutil\<close>, and \<^verbatim>\<open>TypeError\<close>. All are subclasses
  of \<^verbatim>\<open>Exception\<close>, so \<^verbatim>\<open>except Exception\<close> catches each of them.
\<close>

datatype exn =
    FileNotFoundError
  | FileExistsError
  | NotADirectoryError
  | IsADirectoryError
  | PermissionError
  | DirectoryNotEmpty
  | InvalidArgument
  | SameFileError
  | ShutilError
  | TypeError

datatype level = INFO | WARNING | ERROR

text \<open>
  A log record keeps the level and the f-string of the \<^verbatim>\<open>logging\<close> call with its
  arguments unrendered.
\<close>

datatype message =
    Archived string string
  | Error_archiving_file exn
  | Unknown_unsupported_file_type string
  | Moved string string
  | Error_moving_file exn
  | New_file_detected string
  | No_base_directory_selected

record date =
  year :: nat
  month :: nat
  day :: nat

text \<open>
  The fields of a \<^verbatim>\<open>WatcherHandler\<close>, and a \<^verbatim>\<open>watchdog\<close> observer with the one watch
  the program schedules on it; \<open>alive\<close> is what \<^verbatim>\<open>is_alive()\<close> returns.
\<close>

record watcher_handler =
  handler_base_dir :: string
  handler_ext_map :: "(string \<times> string) list"
  handler_sorted_dir_name :: string
  handler_archive_dir_name :: string

record observer_thread =
  event_handler :: watcher_handler
  path :: string
  recursive :: bool
  alive :: bool

text \<open>
  Everything outside the Python objects: the file system, the working directory of the
  process, the local date \<^verbatim>\<open>datetime.now()\<close> reads, the records handed to \<^verbatim>\<open>logging\<close>,
  the observers constructed so far, and (a ghost field, written by nothing but the model
  of \<^verbatim>\<open>archive_file\<close>) the arguments of every call of \<^verbatim>\<open>archive_file\<close> in order.
\<close>

record world =
  files :: fs
  cwd :: key
  clock :: date
  logs :: "(level \<times> message) list"
  observers :: "observer_thread list"
  archive_calls :: "(string \<times> string) list"

subsection \<open>Path resolution\<close>

fun split_sep :: "string \<Rightarrow> string list" where
  "split_sep [] = [[]]"
| "split_sep (c # cs) =
     (if c = CHR ''/'' then [] # split_sep cs
      else (case split_sep cs of [] \<Rightarrow> [[c]] | x # xs \<Rightarrow> (c # x) # xs))"

text \<open>
  Empty components and \<open>.\<close> are skipped; \<open>..\<close> steps to the parent (the root is its own
  parent). Without symbolic links this is the entry the kernel reaches whenever the
  directories on the way exist; a trailing separator is not told apart from none.
\<close>

fun norm_components :: "key \<Rightarrow> string list \<Rightarrow> key" where
  "norm_components st [] = st"
| "norm_components st (c # cs) =
     (if c = [] \<or> c = ''.'' then norm_components st cs
      else if c = ''..'' then norm_components (butlast st) cs
      else norm_components (st @ [c]) cs)"

definition resolve :: "key \<Rightarrow> string \<Rightarrow> key" where
  "resolve wd p = norm_components (if take 1 p = ''/'' then [] else wd) (split_sep p)"

definition node_at :: "fs \<Rightarrow> key \<Rightarrow> node option" where
  "node_at f k = (if k = [] then Some (Dir True) else map_of f k)"

text \<open>The entry a path names; the empty path names nothing.\<close>

definition lookup_path :: "world \<Rightarrow> string \<Rightarrow> node option" where
  "lookup_path w p = (if p = [] then None else node_at (files w) (resolve (cwd w) p))"

definition os_path_exists :: "world \<Rightarrow> string \<Rightarrow> bool" where
  "os_path_exists w p = (lookup_path w p \<noteq> None)"

definition os_path_isdir :: "world \<Rightarrow> string \<Rightarrow> bool" where
  "os_path_isdir w p = (case lookup_path w p of Some (Dir b) \<Rightarrow> True | _ \<Rightarrow> False)"

section \<open>Collision-free names\<close>

text \<open>
  \<^verbatim>\<open>f"{base_name} {counter}{ext}"\<close>, where \<^verbatim>\<open>base_name, ext = os.path.splitext(filename)\<close>
  are fixed before the loop of \<^verbatim>\<open>get_unique_filename\<close> starts.
\<close>

definition numbered_name :: "string \<Rightarrow> nat \<Rightarrow> string" where
  "numbered_name filename counter =
     (case splitext filename of (base_name, ext) \<Rightarrow> base_name @ '' '' @ str_nat counter @ ext)"

subsection \<open>\<^verbatim>\<open>get_unique_filename\<close>\<close>

text \<open>
  \<^verbatim>\<open>
  counter = 1
  dest_path = os.path.join(dest_dir, filename)
  while os.path.exists(dest_path):
      dest_path = os.path.join(dest_dir, f"{base_name} {counter}{ext}")
      counter += 1
  return dest_path
  \<close>
\<close>

function get_unique_loop :: "world \<Rightarrow> string \<Rightarrow> string \<Rightarrow> string \<Rightarrow> nat \<Rightarrow> string" where
  "get_unique_loop w dest_dir filename dest_path counter =
     (if os_path_exists w dest_path
      then get_unique_loop w dest_dir filename
             (os_path_join dest_dir (numbered_name filename counter)) (counter + 1)
      else dest_path)"
  by pat_completeness auto

text \<open>
  The loop carries the file name and takes \<^verbatim>\<open>base_name\<close> and \<^verbatim>\<open>ext\<close> from it in every
  round (they never change). That it ends for every world is proved below, in the
  section on the naming loop, from the finiteness of the file system.
\<close>

definition get_unique_filename :: "world \<Rightarrow> string \<Rightarrow> string \<Rightarrow> string" where
  "get_unique_filename w dest_dir filename =
     get_unique_loop w dest_dir filename (os_path_join dest_dir filename) 1"

section \<open>Operating system calls\<close>

text \<open>
  A call that can raise returns the exception, if any, with the world it leaves behind:
  \<open>(None, w)\<close> is a normal return, \<open>(Some e, w)\<close> raises \<open>e\<close>.

  Creating or removing the entry \<open>k\<close> needs its parent to be a writable directory.
\<close>

definition entry_access :: "fs \<Rightarrow> key \<Rightarrow> exn option" where
  "entry_access f k =
     (case node_at f (butlast k) of
        None \<Rightarrow> Some FileNotFoundError
      | Some (File c m fw) \<Rightarrow> Some NotADirectoryError
      | Some (Dir b) \<Rightarrow> if b then None else Some PermissionError)"

text \<open>
  \<^verbatim>\<open>os.makedirs(name, exist_ok=True)\<close>: walks from the root (or the working directory)
  to the named entry and creates every directory that is missing. A regular file on the
  way is an error, also as the last component (\<^verbatim>\<open>exist_ok\<close> accepts only a directory).
\<close>

fun mkdirs :: "fs \<Rightarrow> key \<Rightarrow> string list \<Rightarrow> exn option \<times> fs" where
  "mkdirs f cur [] = (None, f)"
| "mkdirs f cur (c # cs) =
     (case node_at f (cur @ [c]) of
        Some (Dir b) \<Rightarrow> mkdirs f (cur @ [c]) cs
      | Some (File x m fw) \<Rightarrow> (Some (if cs = [] then FileExistsError else NotADirectoryError), f)
      | None \<Rightarrow>
          (case node_at f cur of
             Some (Dir True) \<Rightarrow> mkdirs (AList.update (cur @ [c]) (Dir True) f) (cur @ [c]) cs
           | _ \<Rightarrow> (Some PermissionError, f)))"

definition os_makedirs :: "world \<Rightarrow> string \<Rightarrow> exn option \<times> world" where
  "os_makedirs w name =
     (if name = [] then (Some FileNotFoundError, w)
      else (case mkdirs (files w) [] (resolve (cwd w) name) of
              (e, f) \<Rightarrow> (e, w\<lparr>files := f\<rparr>)))"

text \<open>\<^verbatim>\<open>os.path.samefile\<close> as \<^verbatim>\<open>shutil\<close> uses it: \<^verbatim>\<open>False\<close> when either path is missing.\<close>

definition samefile :: "world \<Rightarrow> string \<Rightarrow> string \<Rightarrow> bool" where
  "samefile w a b =
     (lookup_path w a \<noteq> None \<and> lookup_path w b \<noteq> None
      \<and> resolve (cwd w) a = resolve (cwd w) b)"

text \<open>
  \<^verbatim>\<open>shutil.copyfile\<close> followed by \<^verbatim>\<open>shutil.copystat\<close>. \<^verbatim>\<open>copyfile\<close> opens the
  destination for writing: an existing regular file is truncated and rewritten when its
  mode allows writing, and \<^verbatim>\<open>PermissionError\<close> is raised when it does not; a missing one
  is created when its directory is writable. \<^verbatim>\<open>copystat\<close> then gives the destination
  the modification time and the mode of the source, so the copy of a read-only file is
  read-only.
\<close>

definition copyfile_stat :: "world \<Rightarrow> string \<Rightarrow> string \<Rightarrow> exn option \<times> world" where
  "copyfile_stat w src dst =
     (if samefile w src dst then (Some SameFileError, w)
      else
        (case lookup_path w src of
           None \<Rightarrow> (Some FileNotFoundError, w)
         | Some (Dir b) \<Rightarrow> (Some IsADirectoryError, w)
         | Some (File c m fw) \<Rightarrow>
             (if dst = [] then (Some FileNotFoundError, w)
              else
                (let kd = resolve (cwd w) dst
                 in case node_at (files w) kd of
                      Some (Dir b) \<Rightarrow> (Some IsADirectoryError, w)
                    | Some (File c' m' fw') \<Rightarrow>
                        (if fw'
                         then (None, w\<lparr>files := AList.update kd (File c m fw) (files w)\<rparr>)
                         else (Some PermissionError, w))
                    | None \<Rightarrow>
                        (case entry_access (files w) kd of
                           Some e \<Rightarrow> (Some e, w)
                         | None \<Rightarrow>
                             (None, w\<lparr>files := AList.update kd (File c m fw) (files w)\<rparr>))))))"

text \<open>
  \<^verbatim>\<open>shutil.copy2(src, dst)\<close>:
  \<^verbatim>\<open>
  if os.path.isdir(dst):
      dst = os.path.join(dst, os.path.basename(src))
  copyfile(src, dst); copystat(src, dst)
  \<close>
\<close>

definition shutil_copy2 :: "world \<Rightarrow> string \<Rightarrow> string \<Rightarrow> exn option \<times> world" where
  "shutil_copy2 w src dst =
     copyfile_stat w src
       (if os_path_isdir w dst then os_path_join dst (basename src) else dst)"

definition os_unlink :: "world \<Rightarrow> string \<Rightarrow> exn option \<times> world" where
  "os_unlink w p =
     (case lookup_path w p of
        None \<Rightarrow> (Some FileNotFoundError, w)
      | Some (Dir b) \<Rightarrow> (Some IsADirectoryError, w)
      | Some (File c m fw) \<Rightarrow>
          (case entry_access (files w) (resolve (cwd w) p) of
             Some e \<Rightarrow> (Some e, w)
           | None \<Rightarrow> (None, w\<lparr>files := AList.delete (resolve (cwd w) p) (files w)\<rparr>)))"

text \<open>
  \<^verbatim>\<open>os.rename\<close>: the source entry must exist, both parents must be writable
  directories; a regular file replaces a regular file, a directory moves with everything
  below it and replaces only an empty directory.
\<close>

definition below :: "key \<Rightarrow> key \<Rightarrow> bool" where
  "below k k' = (take (length k) k' = k)"

definition has_children :: "fs \<Rightarrow> key \<Rightarrow> bool" where
  "has_children f k = list_ex (\<lambda>(k', n). below k k' \<and> k' \<noteq> k) f"

definition rekey :: "key \<Rightarrow> key \<Rightarrow> key \<times> node \<Rightarrow> key \<times> node" where
  "rekey ks kd = (\<lambda>(k, n). if below ks k then (kd @ drop (length ks) k, n) else (k, n))"

definition os_rename :: "world \<Rightarrow> string \<Rightarrow> string \<Rightarrow> exn option \<times> world" where
  "os_rename w src dst =
     (let f = files w; ks = resolve (cwd w) src; kd = resolve (cwd w) dst
      in case lookup_path w src of
           None \<Rightarrow> (Some FileNotFoundError, w)
         | Some n \<Rightarrow>
             (if dst = [] then (Some FileNotFoundError, w)
              else
                (case entry_access f kd of
                   Some e \<Rightarrow> (Some e, w)
                 | None \<Rightarrow>
                     (case entry_access f ks of
                        Some e \<Rightarrow> (Some e, w)
                      | None \<Rightarrow>
                          (if ks = kd then (None, w)
                           else
                             (case n of
                                File c m fw \<Rightarrow>
                                  (case node_at f kd of
                                     Some (Dir b) \<Rightarrow> (Some IsADirectoryError, w)
                                   | _ \<Rightarrow>
                                       (None, w\<lparr>files := AList.update kd n (AList.delete ks f)\<rparr>))
                              | Dir b \<Rightarrow>
                                  (case node_at f kd of
                                     Some (File c m fw) \<Rightarrow> (Some NotADirectoryError, w)
                                   | t \<Rightarrow>
                                       (if below ks kd then (Some InvalidArgument, w)
                                        else if has_children f kd then (Some DirectoryNotEmpty, w)
                                        else (None, w\<lparr>files := map (rekey ks kd) (AList.delete kd f)\<rparr>)))))))))"

text \<open>
  \<^verbatim>\<open>shutil.move(src, dst)\<close>:
  \<^verbatim>\<open>
  real_dst = dst
  if os.path.isdir(dst):
      if _samefile(src, dst):
          os.rename(src, dst); return
      real_dst = os.path.join(dst, _basename(src))
      if os.path.exists(real_dst):
          raise Error("Destination path '%s' already exists" % real_dst)
  try:
      os.rename(src, real_dst)
  except OSError:
      ...
      else:
          copy_function(src, real_dst)
          os.unlink(src)
  \<close>
  For a regular file the fallback after a failed rename is \<^verbatim>\<open>copy2\<close> and \<^verbatim>\<open>unlink\<close>. For
  a directory whose rename fails the model raises the error of the rename (the tree copy
  of \<^verbatim>\<open>shutil\<close> is not modelled; \<^verbatim>\<open>WatcherHandler\<close> hands over no directory).
\<close>

definition rstrip_sep :: "string \<Rightarrow> string" where
  "rstrip_sep p = rev (dropWhile (\<lambda>c. c = CHR ''/'') (rev p))"

definition shutil_move :: "world \<Rightarrow> string \<Rightarrow> string \<Rightarrow> exn option \<times> world" where
  "shutil_move w src dst =
     (if os_path_isdir w dst \<and> samefile w src dst then os_rename w src dst
      else
        (let real_dst =
               (if os_path_isdir w dst then os_path_join dst (basename (rstrip_sep src)) else dst)
         in if os_path_isdir w dst \<and> os_path_exists w real_dst then (Some ShutilError, w)
            else
              (case os_rename w src real_dst of
                 (None, w') \<Rightarrow> (None, w')
               | (Some e, w') \<Rightarrow>
                   (case lookup_path w src of
                      Some (Dir b) \<Rightarrow> (Some e, w')
                    | _ \<Rightarrow>
                        (case shutil_copy2 w src real_dst of
                           (Some e', w1) \<Rightarrow> (Some e', w1)
                         | (None, w1) \<Rightarrow> os_unlink w1 src)))))"

text \<open>\<^verbatim>\<open>datetime.now().strftime("%Y-%m-%d")\<close>, read from the clock of the world.\<close>

definition zfill :: "nat \<Rightarrow> string \<Rightarrow> string" where
  "zfill n s = replicate (n - length s) CHR ''0'' @ s"

definition strftime_Ymd :: "date \<Rightarrow> string" where
  "strftime_Ymd d =
     zfill 4 (str_nat (year d)) @ ''-'' @ zfill 2 (str_nat (month d)) @ ''-''
       @ zfill 2 (str_nat (day d))"

section \<open>The program\<close>

subsection \<open>\<^verbatim>\<open>archive_file\<close>\<close>

text \<open>
  \<^verbatim>\<open>
  date_folder = datetime.now().strftime("%Y-%m-%d")
  archive_path = os.path.join(archive_dir, date_folder)
  os.makedirs(archive_path, exist_ok=True)

  try:
      shutil.copy2(dest_path, archive_path)
      logging.info(f"Archived {dest_path} to {archive_path}")
  except Exception as e:
      logging.error(f"Error archiving file: {e}")
  \<close>
  \<^verbatim>\<open>os.makedirs\<close> stands before the \<^verbatim>\<open>try\<close>: what it raises leaves the function.
\<close>

definition archive_file :: "string \<Rightarrow> string \<Rightarrow> world \<Rightarrow> exn option \<times> world" where
  "archive_file dest_path archive_dir w0 =
     (let w = w0\<lparr>archive_calls := archive_calls w0 @ [(dest_path, archive_dir)]\<rparr>;
          date_folder = strftime_Ymd (clock w);
          archive_path = os_path_join archive_dir date_folder
      in case os_makedirs w archive_path of
           (Some e, w1) \<Rightarrow> (Some e, w1)
         | (None, w1) \<Rightarrow>
             (case shutil_copy2 w1 dest_path archive_path of
                (None, w2) \<Rightarrow>
                  (None, w2\<lparr>logs := logs w2 @ [(INFO, Archived dest_path archive_path)]\<rparr>)
              | (Some e, w2) \<Rightarrow>
                  (None, w2\<lparr>logs := logs w2 @ [(ERROR, Error_archiving_file e)]\<rparr>)))"

subsection \<open>\<^verbatim>\<open>move_file\<close>\<close>

text \<open>
  The extension map is the \<^verbatim>\<open>dict\<close> loaded from the configuration, as the list of its
  items; \<^verbatim>\<open>ext in ext_map\<close> and \<^verbatim>\<open>ext_map[ext]\<close> are \<^const>\<open>map_of\<close>.
  \<^verbatim>\<open>
  sorted_dir = os.path.join(base_dir, sorted_dir_name)
  archive_dir = os.path.join(base_dir, archive_dir_name)
  _, ext = os.path.splitext(src_path)
  ext = ext.lower()

  if ext in ext_map:
      dest_dir = os.path.join(sorted_dir, ext_map[ext])
  else:
      logging.warning(f"Unknown / unsupported file type: {src_path}")
      return

  try:
      filename = os.path.basename(src_path)
      final_dest = get_unique_filename(dest_dir, filename)
      shutil.move(src_path, final_dest)
      logging.info(f"Moved {src_path} to {final_dest}")
      archive_file(final_dest, archive_dir)
  except Exception as e:
      logging.error(f"Error moving file: {e}")
  \<close>
\<close>

definition move_file ::
  "string \<Rightarrow> string \<Rightarrow> (string \<times> string) list \<Rightarrow> string \<Rightarrow> string \<Rightarrow> world
     \<Rightarrow> exn option \<times> world" where
  "move_file src_path base_dir ext_map sorted_dir_name archive_dir_name w =
     (let sorted_dir = os_path_join base_dir sorted_dir_name;
          archive_dir = os_path_join base_dir archive_dir_name;
          ext = lower (snd (splitext src_path))
      in case map_of ext_map ext of
           None \<Rightarrow>
             (None, w\<lparr>logs := logs w @ [(WARNING, Unknown_unsupported_file_type src_path)]\<rparr>)
         | Some category \<Rightarrow>
             (let dest_dir = os_path_join sorted_dir category;
                  filename = basename src_path;
                  final_dest = get_unique_filename w dest_dir filename
              in case shutil_move w src_path final_dest of
                   (Some e, w1) \<Rightarrow>
                     (None, w1\<lparr>logs := logs w1 @ [(ERROR, Error_moving_file e)]\<rparr>)
                 | (None, w1) \<Rightarrow>
                     (case archive_file final_dest archive_dir
                             (w1\<lparr>logs := logs w1 @ [(INFO, Moved src_path final_dest)]\<rparr>) of
                        (Some e, w2) \<Rightarrow>
                          (None, w2\<lparr>logs := logs w2 @ [(ERROR, Error_moving_file e)]\<rparr>)
                      | (None, w2) \<Rightarrow> (None, w2))))"

subsection \<open>\<^verbatim>\<open>WatcherHandler.on_created\<close>\<close>

record fs_event =
  src_path :: string
  is_directory :: bool

definition on_created :: "watcher_handler \<Rightarrow> fs_event \<Rightarrow> world \<Rightarrow> exn option \<times> world" where
  "on_created self event w =
     (if \<not> is_directory event
      then move_file (src_path event) (handler_base_dir self) (handler_ext_map self)
             (handler_sorted_dir_name self) (handler_archive_dir_name self)
             (w\<lparr>logs := logs w @ [(INFO, New_file_detected (src_path event))]\<rparr>)
      else (None, w))"

subsection \<open>\<^verbatim>\<open>FileSorterApp\<close>\<close>

text \<open>
  The configuration is the object \<^verbatim>\<open>json.load\<close> returned, with the four keys the program
  reads present and of the types it expects: three strings and the extension map.
\<close>

record config =
  incoming_directory :: string
  sorted_directory :: string
  archive_directory :: string
  extensions :: "(string \<times> string) list"

datatype button_state = NORMAL | DISABLED

text \<open>
  The fields of the application object. \<open>observer\<close> refers to an observer of the world
  by its position; \<^verbatim>\<open>None\<close> is \<^const>\<open>None\<close>.
\<close>

record app =
  observer :: "nat option"
  base_dir :: "string option"
  config :: config
  dir_label :: string
  start_button :: button_state
  stop_button :: button_state

definition init_app :: "config \<Rightarrow> app" where
  "init_app c =
     \<lparr>observer = None, base_dir = None, config = c, dir_label = ''No directory selected'',
      start_button = DISABLED, stop_button = DISABLED\<rparr>"

text \<open>
  \<^verbatim>\<open>prepare_directories\<close>: three \<^verbatim>\<open>os.makedirs(..., exist_ok=True)\<close>, then one for each
  element of \<^verbatim>\<open>set(self.config["extensions"].values())\<close>. The order in which Python
  iterates the set is not fixed, so the loop takes the order as an argument.
\<close>

fun makedirs_each :: "world \<Rightarrow> string \<Rightarrow> string list \<Rightarrow> exn option \<times> world" where
  "makedirs_each w sorted_dir [] = (None, w)"
| "makedirs_each w sorted_dir (folder_name # rest) =
     (case os_makedirs w (os_path_join sorted_dir folder_name) of
        (Some e, w1) \<Rightarrow> (Some e, w1)
      | (None, w1) \<Rightarrow> makedirs_each w1 sorted_dir rest)"

definition prepare_directories_in ::
  "string list \<Rightarrow> app \<Rightarrow> world \<Rightarrow> exn option \<times> world" where
  "prepare_directories_in folder_names self w =
     (case base_dir self of
        None \<Rightarrow> (Some TypeError, w)
      | Some b \<Rightarrow>
          (let incoming = os_path_join b (incoming_directory (config self));
               sorted_dir = os_path_join b (sorted_directory (config self));
               archive_dir = os_path_join b (archive_directory (config self))
           in case os_makedirs w incoming of
                (Some e, w1) \<Rightarrow> (Some e, w1)
              | (None, w1) \<Rightarrow>
                  (case os_makedirs w1 sorted_dir of
                     (Some e, w2) \<Rightarrow> (Some e, w2)
                   | (None, w2) \<Rightarrow>
                       (case os_makedirs w2 archive_dir of
                          (Some e, w3) \<Rightarrow> (Some e, w3)
                        | (None, w3) \<Rightarrow> makedirs_each w3 sorted_dir folder_names))))"

definition prepare_directories :: "app \<Rightarrow> world \<Rightarrow> exn option \<times> world" where
  "prepare_directories self w =
     prepare_directories_in (remdups (map snd (extensions (config self)))) self w"

text \<open>
  \<^verbatim>\<open>select_directory\<close>, given what \<^verbatim>\<open>filedialog.askdirectory()\<close> returned (the empty
  string when the dialog is cancelled).
\<close>

definition select_directory :: "string \<Rightarrow> app \<Rightarrow> world \<Rightarrow> exn option \<times> app \<times> world" where
  "select_directory chosen_dir self w =
     (if chosen_dir \<noteq> []
      then
        (let self1 = self\<lparr>base_dir := Some chosen_dir, dir_label := chosen_dir\<rparr>
         in case prepare_directories self1 w of
              (Some e, w1) \<Rightarrow> (Some e, self1, w1)
            | (None, w1) \<Rightarrow> (None, self1\<lparr>start_button := NORMAL\<rparr>, w1))
      else (None, self, w))"

text \<open>
  \<^verbatim>\<open>start_monitoring\<close>. \<^verbatim>\<open>if not self.base_dir\<close> holds for \<^verbatim>\<open>None\<close> and for the empty
  string. \<^verbatim>\<open>Observer()\<close> is a new observer of the world; \<^verbatim>\<open>schedule\<close> and \<^verbatim>\<open>start\<close> give it
  its watch and set it running. The thread of \<^verbatim>\<open>run_observer\<close> only polls
  \<^verbatim>\<open>is_alive()\<close> and changes nothing.
\<close>

definition start_monitoring :: "app \<Rightarrow> world \<Rightarrow> app \<times> world" where
  "start_monitoring self w =
     (case base_dir self of
        None \<Rightarrow> (self, w\<lparr>logs := logs w @ [(WARNING, No_base_directory_selected)]\<rparr>)
      | Some b \<Rightarrow>
          (if b = []
           then (self, w\<lparr>logs := logs w @ [(WARNING, No_base_directory_selected)]\<rparr>)
           else
             (let incoming = os_path_join b (incoming_directory (config self));
                  event_handler =
                    \<lparr>handler_base_dir = b,
                     handler_ext_map = extensions (config self),
                     handler_sorted_dir_name = sorted_directory (config self),
                     handler_archive_dir_name = archive_directory (config self)\<rparr>;
                  new_observer =
                    \<lparr>event_handler = event_handler, path = incoming, recursive = False,
                     alive = True\<rparr>
              in (self\<lparr>observer := Some (length (observers w)),
                       start_button := DISABLED, stop_button := NORMAL\<rparr>,
                  w\<lparr>observers := observers w @ [new_observer]\<rparr>))))"

text \<open>
  \<^verbatim>\<open>stop_monitoring\<close>: \<^verbatim>\<open>stop()\<close> and \<^verbatim>\<open>join()\<close> end the observer \<^verbatim>\<open>self.observer\<close>
  refers to, and no other. (The reference is always the position of an observer
  constructed before; the list update changes nothing at any other position.)
\<close>

definition stop_monitoring :: "app \<Rightarrow> world \<Rightarrow> app \<times> world" where
  "stop_monitoring self w =
     (case observer self of
        Some i \<Rightarrow>
          (self\<lparr>observer := None, start_button := NORMAL, stop_button := DISABLED\<rparr>,
           w\<lparr>observers := (observers w)[i := (observers w ! i)\<lparr>alive := False\<rparr>]\<rparr>)
      | None \<Rightarrow> (self\<lparr>start_button := NORMAL, stop_button := DISABLED\<rparr>, w))"

text \<open>
  The operator's controls. A Tk button whose state is \<^verbatim>\<open>DISABLED\<close> does not call its
  command; an exception in a command is reported by Tk and the main loop goes on.
\<close>

datatype control = Select_directory string | Start_monitoring | Stop_monitoring

fun press :: "control \<Rightarrow> app \<times> world \<Rightarrow> app \<times> world" where
  "press (Select_directory chosen_dir) (self, w) = snd (select_directory chosen_dir self w)"
| "press Start_monitoring (self, w) =
     (if start_button self = NORMAL then start_monitoring self w else (self, w))"
| "press Stop_monitoring (self, w) =
     (if stop_button self = NORMAL then stop_monitoring self w else (self, w))"

definition running :: "world \<Rightarrow> observer_thread list" where
  "running w = filter alive (observers w)"

section \<open>Notions used in the statements\<close>

text \<open>
  The names the specification lists for a file name, in order: the name itself, then
  \<open><base> 1<ext>\<close>, \<open><base> 2<ext>\<close>, ... in the destination directory.
\<close>

fun candidate :: "string \<Rightarrow> string \<Rightarrow> nat \<Rightarrow> string" where
  "candidate dest_dir filename 0 = os_path_join dest_dir filename"
| "candidate dest_dir filename (Suc n) = os_path_join dest_dir (numbered_name filename (Suc n))"

text \<open>The entry of a key is a directory.\<close>

definition dir_at :: "fs \<Rightarrow> key \<Rightarrow> bool" where
  "dir_at f k = (case node_at f k of Some (Dir b) \<Rightarrow> True | _ \<Rightarrow> False)"

text \<open>A path is made when every directory on the way to it exists.\<close>

fun dirs_along :: "fs \<Rightarrow> key \<Rightarrow> string list \<Rightarrow> bool" where
  "dirs_along f cur [] = True"
| "dirs_along f cur (c # cs) = (dir_at f (cur @ [c]) \<and> dirs_along f (cur @ [c]) cs)"

definition made :: "world \<Rightarrow> string \<Rightarrow> bool" where
  "made w p = (p \<noteq> [] \<and> dirs_along (files w) [] (resolve (cwd w) p))"





section \<open>Example worlds\<close>

text \<open>
  A destination directory \<open>/dst\<close> that already holds \<open>report.txt\<close> and \<open>report 1.txt\<close>.
\<close>

definition occupied_world :: world where
  "occupied_world =
     \<lparr>files = [([''dst''], Dir True),
               ([''dst'', ''report.txt''], File ''first'' 10 True),
               ([''dst'', ''report 1.txt''], File ''second'' 20 True)],
      cwd = [], clock = \<lparr>year = 2026, month = 11, day = 3\<rparr>, logs = [], observers = [],
      archive_calls = []\<rparr>"

text \<open>
  A prepared base directory \<open>/base\<close> with the category \<open>docs\<close>, which already holds a
  \<open>report.txt\<close>; two new files in \<open>/base/in\<close>; the file system after \<open>report.txt\<close> was
  moved, and after it was archived on 2026-11-03.
\<close>

definition sorter_world :: world where
  "sorter_world =
     \<lparr>files = [([''base''], Dir True),
               ([''base'', ''in''], Dir True),
               ([''base'', ''in'', ''report.txt''], File ''new'' 30 True),
               ([''base'', ''in'', ''notes.md''], File ''memo'' 31 True),
               ([''base'', ''sorted''], Dir True),
               ([''base'', ''sorted'', ''docs''], Dir True),
               ([''base'', ''sorted'', ''docs'', ''report.txt''], File ''old'' 10 True),
               ([''base'', ''archive''], Dir True)],
      cwd = [], clock = \<lparr>year = 2026, month = 11, day = 3\<rparr>, logs = [], observers = [],
      archive_calls = []\<rparr>"

definition sorter_map :: "(string \<times> string) list" where
  "sorter_map = [(''.txt'', ''docs''), (''.jpg'', ''images'')]"

definition moved_files :: fs where
  "moved_files =
     [([''base''], Dir True),
      ([''base'', ''in''], Dir True),
      ([''base'', ''in'', ''notes.md''], File ''memo'' 31 True),
      ([''base'', ''sorted''], Dir True),
      ([''base'', ''sorted'', ''docs''], Dir True),
      ([''base'', ''sorted'', ''docs'', ''report.txt''], File ''old'' 10 True),
      ([''base'', ''archive''], Dir True),
      ([''base'', ''sorted'', ''docs'', ''report 1.txt''], File ''new'' 30 True)]"

definition archived_files :: fs where
  "archived_files =
     moved_files @
     [([''base'', ''archive'', ''2026-11-03''], Dir True),
      ([''base'', ''archive'', ''2026-11-03'', ''report 1.txt''], File ''new'' 30 True)]"






text \<open>
  A base directory whose archive directory is read-only, with one new file; the file
  system after the file was moved.
\<close>

definition locked_archive_world :: world where
  "locked_archive_world =
     \<lparr>files = [([''base''], Dir True),
               ([''base'', ''in''], Dir True),
               ([''base'', ''in'', ''report.txt''], File ''new'' 30 True),
               ([''base'', ''sorted''], Dir True),
               ([''base'', ''sorted'', ''docs''], Dir True),
               ([''base'', ''archive''], Dir False)],
      cwd = [], clock = \<lparr>year = 2026, month = 11, day = 3\<rparr>, logs = [], observers = [],
      archive_calls = []\<rparr>"

definition locked_moved_files :: fs where
  "locked_moved_files =
     [([''base''], Dir True),
      ([''base'', ''in''], Dir True),
      ([''base'', ''sorted''], Dir True),
      ([''base'', ''sorted'', ''docs''], Dir True),
      ([''base'', ''archive''], Dir False),
      ([''base'', ''sorted'', ''docs'', ''report.txt''], File ''new'' 30 True)]"

text \<open>
  The configuration of the examples, the application after \<open>/base\<close> was selected, the
  observer \<^verbatim>\<open>start_monitoring\<close> then constructs, and a world whose folder tree is
  prepared. \<open>double_start\<close> is the state after the operator selects \<open>/base\<close>, starts
  monitoring, selects \<open>/base\<close> again and starts monitoring again.
\<close>

definition sorter_config :: config where
  "sorter_config =
     \<lparr>incoming_directory = ''in'', sorted_directory = ''sorted'',
      archive_directory = ''archive'', extensions = sorter_map\<rparr>"

definition sorter_observer :: observer_thread where
  "sorter_observer =
     \<lparr>event_handler =
        \<lparr>handler_base_dir = ''/base'', handler_ext_map = sorter_map,
         handler_sorted_dir_name = ''sorted'', handler_archive_dir_name = ''archive''\<rparr>,
      path = ''/base/in'', recursive = False, alive = True\<rparr>"

definition selected_app :: app where
  "selected_app =
     \<lparr>observer = None, base_dir = Some ''/base'', config = sorter_config,
      dir_label = ''/base'', start_button = NORMAL, stop_button = DISABLED\<rparr>"

definition prepared_world :: world where
  "prepared_world =
     \<lparr>files = [([''base''], Dir True),
               ([''base'', ''in''], Dir True),
               ([''base'', ''sorted''], Dir True),
               ([''base'', ''archive''], Dir True),
               ([''base'', ''sorted'', ''docs''], Dir True),
               ([''base'', ''sorted'', ''images''], Dir True)],
      cwd = [], clock = \<lparr>year = 2026, month = 11, day = 3\<rparr>, logs = [], observers = [],
      archive_calls = []\<rparr>"

definition double_start :: "app \<times> world" where
  "double_start =
     press Start_monitoring (press (Select_directory ''/base'')
       (press Start_monitoring (press (Select_directory ''/base'')
          (init_app sorter_config, prepared_world))))"

text \<open>The file system of \<open>sorter_world\<close> once the folder tree is prepared.\<close>

definition sorter_prepared_files :: fs where
  "sorter_prepared_files = files sorter_world @ [([''base'', ''sorted'', ''images''], Dir True)]"




section \<open>The naming loop ends\<close>

text \<open>
  The numbered names of one file name resolve to pairwise different entries of one
  directory, and a file system holds finitely many entries.
\<close>

lemma split_sep_nonempty: "split_sep s \<noteq> []"
  by (induction s) (auto split: list.splits)

lemma split_sep_no_sep: "CHR ''/'' \<notin> set t \<Longrightarrow> split_sep t = [t]"
  by (induction t) auto

lemma split_sep_append:
  "CHR ''/'' \<notin> set t \<Longrightarrow>
   split_sep (pre @ t) = butlast (split_sep pre) @ [last (split_sep pre) @ t]"
proof (induction pre)
  case Nil
  then show ?case by (simp add: split_sep_no_sep)
next
  case (Cons c pre)
  obtain x xs where sp: "split_sep pre = x # xs"
    using split_sep_nonempty [of pre] by (cases "split_sep pre") auto
  show ?case
    using Cons sp split_sep_nonempty [of pre]
    by (cases xs) (auto split: list.splits)
qed

lemma norm_components_snoc:
  "norm_components st (xs @ [c]) =
     (if c = [] \<or> c = ''.'' then norm_components st xs
      else if c = ''..'' then butlast (norm_components st xs)
      else norm_components st xs @ [c])"
  by (induction xs arbitrary: st) auto

lemma digit_char_inj: "a < 10 \<Longrightarrow> b < 10 \<Longrightarrow> digit_char a = digit_char b \<Longrightarrow> a = b"
proof -
  assume "a < 10" "b < 10" "digit_char a = digit_char b"
  moreover have "\<And>n::nat. n < 10 \<Longrightarrow> n \<in> {0,1,2,3,4,5,6,7,8,9}" by auto
  ultimately have "a \<in> {0,1,2,3,4,5,6,7,8,9}" "b \<in> {0,1,2,3,4,5,6,7,8,9}" by blast+
  with \<open>digit_char a = digit_char b\<close> show ?thesis
    by (auto simp: digit_char_def)
qed

lemma str_nat_nonempty: "str_nat n \<noteq> []"
  by (subst str_nat.simps) simp

lemma str_nat_inj: "str_nat n = str_nat m \<Longrightarrow> n = m"
proof (induction n arbitrary: m rule: str_nat.induct)
  case (1 n)
  show ?case
  proof (cases "n < 10")
    case True
    note n = this
    show ?thesis
    proof (cases "m < 10")
      case True
      with n "1.prems" show ?thesis
        by (simp add: str_nat.simps [of n] str_nat.simps [of m] digit_char_inj)
    next
      case False
      with n "1.prems" str_nat_nonempty [of "m div 10"] show ?thesis
        by (simp add: str_nat.simps [of n] str_nat.simps [of m])
    qed
  next
    case False
    note n = this
    show ?thesis
    proof (cases "m < 10")
      case True
      with n "1.prems" str_nat_nonempty [of "n div 10"] show ?thesis
        by (simp add: str_nat.simps [of n] str_nat.simps [of m])
    next
      case False
      with n "1.prems" have e: "str_nat (n div 10) = str_nat (m div 10)"
        and d: "digit_char (n mod 10) = digit_char (m mod 10)"
        by (simp_all add: str_nat.simps [of n] str_nat.simps [of m])
      from "1.IH" [OF n e] have "n div 10 = m div 10" .
      moreover from d have "n mod 10 = m mod 10"
        by (intro digit_char_inj) auto
      ultimately show ?thesis
        by (metis div_mult_mod_eq)
    qed
  qed
qed

lemma digit_char_not_sep: "d < 10 \<Longrightarrow> CHR ''/'' \<noteq> digit_char d"
proof -
  assume "d < 10"
  then have "d \<in> {0,1,2,3,4,5,6,7,8,9}" by auto
  then show ?thesis by (auto simp: digit_char_def)
qed

lemma str_nat_no_sep: "CHR ''/'' \<notin> set (str_nat n)"
proof (induction n rule: str_nat.induct)
  case (1 n)
  show ?case
  proof (cases "n < 10")
    case True
    then show ?thesis by (simp add: str_nat.simps [of n] digit_char_not_sep)
  next
    case False
    with "1.IH" show ?thesis
      by (simp add: str_nat.simps [of n] digit_char_not_sep)
  qed
qed

lemma rfind_suffix_free:
  "c \<notin> set (drop (nat (rfind c s + 1)) s)"
proof (cases "c \<in> set s")
  case False
  then show ?thesis by (auto simp: rfind_def dest: in_set_dropD)
next
  case True
  let ?t = "takeWhile (\<lambda>x. x \<noteq> c) (rev s)"
  have len: "length ?t \<le> length s"
    using length_takeWhile_le [of "\<lambda>x. x \<noteq> c" "rev s"] by simp
  have "?t \<noteq> rev s"
    using True by (simp add: takeWhile_eq_all_conv)
  moreover have "?t = take (length ?t) (rev s)"
    by (rule takeWhile_eq_take)
  ultimately have "length ?t \<noteq> length s"
    by (metis length_rev take_all order_refl)
  with len have lt: "length ?t < length s" by simp
  have "nat (rfind c s + 1) = length s - length ?t"
    using True lt by (simp add: rfind_def)
  then have "drop (nat (rfind c s + 1)) s = rev (take (length ?t) (rev s))"
    by (simp add: rev_take)
  also have "take (length ?t) (rev s) = ?t"
    by (metis takeWhile_eq_take)
  finally show ?thesis
    using set_takeWhileD [of c "\<lambda>x. x \<noteq> c" "rev s"] by auto
qed

lemma splitext_scan_snd: "snd (splitext_scan p f d) = drop d p \<or> snd (splitext_scan p f d) = []"
  by (induction p f d rule: splitext_scan.induct) (subst (1 2) splitext_scan.simps, auto)

lemma splitext_ext_no_sep: "CHR ''/'' \<notin> set (snd (splitext p))"
proof (cases "rfind CHR ''.'' p > rfind CHR ''/'' p")
  case False
  then show ?thesis by (simp add: splitext_def)
next
  case True
  let ?d = "nat (rfind CHR ''.'' p)" and ?s = "nat (rfind CHR ''/'' p + 1)"
  have "?s \<le> ?d" using True by simp
  then have "drop ?d p = drop (?d - ?s) (drop ?s p)" by simp
  then have "set (drop ?d p) \<subseteq> set (drop ?s p)"
    by (metis set_drop_subset)
  with rfind_suffix_free [of "CHR ''/''" p] have "CHR ''/'' \<notin> set (drop ?d p)" by blast
  with True splitext_scan_snd [of p ?s ?d] show ?thesis
    by (auto simp: splitext_def Let_def)
qed

lemma resolve_suffix:
  assumes t: "CHR ''/'' \<notin> set t" and sp: "CHR '' '' \<in> set t" and pre: "pre \<noteq> []"
  shows "resolve wd (pre @ t) =
           norm_components (if take 1 pre = ''/'' then [] else wd) (butlast (split_sep pre))
             @ [last (split_sep pre) @ t]"
proof -
  have 1: "take 1 (pre @ t) = take 1 pre" using pre by (cases pre) auto
  have 2: "last (split_sep pre) @ t \<noteq> []" "last (split_sep pre) @ t \<noteq> ''.''"
    "last (split_sep pre) @ t \<noteq> ''..''"
    using sp by (auto simp: append_eq_Cons_conv)
  show ?thesis
    unfolding resolve_def 1 split_sep_append [OF t] norm_components_snoc
    using 2 by simp
qed

lemma resolve_suffix_Nil:
  assumes t: "CHR ''/'' \<notin> set t" and sp: "\<exists>u. t = CHR '' '' # u"
  shows "resolve wd t = wd @ [t]"
proof -
  from sp obtain u where u: "t = CHR '' '' # u" by blast
  have "split_sep t = [t]" using t by (rule split_sep_no_sep)
  then show ?thesis using u by (simp add: resolve_def)
qed

lemma candidate_key:
  "\<exists>K L e. \<forall>k. resolve wd (os_path_join d (numbered_name f k)) = K @ [L @ '' '' @ str_nat k @ e]"
proof -
  obtain b e where be: "splitext f = (b, e)" by (cases "splitext f")
  have e: "CHR ''/'' \<notin> set e" using splitext_ext_no_sep [of f] be by simp
  define pre where "pre =
     (if take 1 b = ''/'' then b else if d = [] \<or> last d = CHR ''/'' then d @ b else d @ ''/'' @ b)"
  have j: "os_path_join d (numbered_name f k) = pre @ ('' '' @ str_nat k @ e)" for k
  proof -
    have "take 1 (b @ '' '' @ str_nat k @ e) = ''/'' \<longleftrightarrow> take 1 b = ''/''"
      by (cases b) auto
    then show ?thesis
      by (simp add: os_path_join_def numbered_name_def be pre_def)
  qed
  have t: "CHR ''/'' \<notin> set ('' '' @ str_nat k @ e)" for k
    using e str_nat_no_sep [of k] by simp
  show ?thesis
  proof (cases "pre = []")
    case True
    have "resolve wd (os_path_join d (numbered_name f k)) = wd @ [[] @ '' '' @ str_nat k @ e]" for k
      unfolding j True using resolve_suffix_Nil [OF t [of k], of wd] by simp
    then show ?thesis by blast
  next
    case False
    have "resolve wd (os_path_join d (numbered_name f k)) =
            norm_components (if take 1 pre = ''/'' then [] else wd) (butlast (split_sep pre))
              @ [last (split_sep pre) @ '' '' @ str_nat k @ e]" for k
      unfolding j using resolve_suffix [OF t [of k] _ False, of wd] by simp
    then show ?thesis by blast
  qed
qed

lemma finite_candidates:
  "finite {k. os_path_exists w (os_path_join d (numbered_name f k))}"
proof -
  obtain K L e where key:
    "\<And>k. resolve (cwd w) (os_path_join d (numbered_name f k)) = K @ [L @ '' '' @ str_nat k @ e]"
    using candidate_key [of "cwd w" d f] by blast
  let ?g = "\<lambda>k. K @ [L @ '' '' @ str_nat k @ e]"
  have inj: "inj ?g" by (auto simp: inj_on_def dest: str_nat_inj)
  have "{k. os_path_exists w (os_path_join d (numbered_name f k))} \<subseteq> ?g -` (fst ` set (files w))"
  proof
    fix k
    assume "k \<in> {k. os_path_exists w (os_path_join d (numbered_name f k))}"
    then have "map_of (files w) (?g k) \<noteq> None"
      by (auto simp: os_path_exists_def lookup_path_def node_at_def key split: if_splits)
    then have "?g k \<in> fst ` set (files w)"
      by (simp add: map_of_eq_None_iff)
    then show "k \<in> ?g -` (fst ` set (files w))" by simp
  qed
  moreover have "finite (?g -` (fst ` set (files w)))"
    using inj by (intro finite_vimageI) auto
  ultimately show ?thesis by (rule finite_subset)
qed

termination get_unique_loop
proof (relation "measure (\<lambda>(w, d, f, p, c).
          card {k. c \<le> k \<and> os_path_exists w (os_path_join d (numbered_name f k))}
            + (if os_path_exists w p then 1 else 0))")
  show "wf (measure (\<lambda>(w, d, f, p, c).
          card {k. c \<le> k \<and> os_path_exists w (os_path_join d (numbered_name f k))}
            + (if os_path_exists w p then 1 else 0)))"
    by simp
next
  fix w :: world and dest_dir filename dest_path :: string and counter :: nat
  assume ex: "os_path_exists w dest_path"
  let ?E = "\<lambda>k. os_path_exists w (os_path_join dest_dir (numbered_name filename k))"
  have fin: "finite {k. counter \<le> k \<and> ?E k}"
    using finite_candidates [of w dest_dir filename] by (rule rev_finite_subset) auto
  have "card {k. counter + 1 \<le> k \<and> ?E k} + (if ?E counter then 1 else 0)
          = card {k. counter \<le> k \<and> ?E k}"
  proof (cases "?E counter")
    case True
    have "{k. counter \<le> k \<and> ?E k} = insert counter {k. counter + 1 \<le> k \<and> ?E k}"
      using True by (auto simp: le_less Suc_le_eq)
    moreover have "finite {k. counter + 1 \<le> k \<and> ?E k}"
      using fin by (rule rev_finite_subset) auto
    ultimately show ?thesis using True by simp
  next
    case False
    have "{k. counter \<le> k \<and> ?E k} = {k. counter + 1 \<le> k \<and> ?E k}"
      using False by (auto simp: Suc_le_eq le_less)
    then show ?thesis using False by simp
  qed
  then show "((w, dest_dir, filename, os_path_join dest_dir (numbered_name filename counter), counter + 1),
              (w, dest_dir, filename, dest_path, counter))
        \<in> measure (\<lambda>(w, d, f, p, c).
          card {k. c \<le> k \<and> os_path_exists w (os_path_join d (numbered_name f k))}
            + (if os_path_exists w p then 1 else 0))"
    using ex by simp
qed

declare get_unique_loop.simps [simp del]

section \<open>The collision law of \<^verbatim>\<open>get_unique_filename\<close>\<close>

lemma get_unique_loop_first_free:
  "p = candidate d f n \<Longrightarrow> c = Suc n \<Longrightarrow>
   \<exists>k\<ge>n. get_unique_loop w d f p c = candidate d f k
        \<and> \<not> os_path_exists w (candidate d f k)
        \<and> (\<forall>j. n \<le> j \<and> j < k \<longrightarrow> os_path_exists w (candidate d f j))"
proof (induction w d f p c arbitrary: n rule: get_unique_loop.induct)
  case (1 w dest_dir filename dest_path counter)
  show ?case
  proof (cases "os_path_exists w dest_path")
    case False
    with "1.prems" show ?thesis
      by (subst get_unique_loop.simps) (auto intro!: exI [of _ n])
  next
    case True
    have "os_path_join dest_dir (numbered_name filename counter) = candidate dest_dir filename (Suc n)"
      using "1.prems" by simp
    from "1.IH" [OF True this] "1.prems"
    obtain k where k: "Suc n \<le> k"
      "get_unique_loop w dest_dir filename (os_path_join dest_dir (numbered_name filename counter))
         (counter + 1) = candidate dest_dir filename k"
      "\<not> os_path_exists w (candidate dest_dir filename k)"
      "\<forall>j. Suc n \<le> j \<and> j < k \<longrightarrow> os_path_exists w (candidate dest_dir filename j)"
      by auto
    have "\<forall>j. n \<le> j \<and> j < k \<longrightarrow> os_path_exists w (candidate dest_dir filename j)"
    proof (intro allI impI)
      fix j assume j: "n \<le> j \<and> j < k"
      show "os_path_exists w (candidate dest_dir filename j)"
      proof (cases "j = n")
        case True
        with \<open>os_path_exists w dest_path\<close> "1.prems" show ?thesis by simp
      next
        case False
        with j k(4) show ?thesis by (simp add: Suc_le_eq)
      qed
    qed
    with k True show ?thesis
      by (subst get_unique_loop.simps) (auto intro!: exI [of _ k])
  qed
qed

lemma get_unique_filename_first_free:
  "\<exists>k. get_unique_filename w d f = candidate d f k
        \<and> \<not> os_path_exists w (candidate d f k)
        \<and> (\<forall>j<k. os_path_exists w (candidate d f j))"
  using get_unique_loop_first_free [of "os_path_join d f" d f 0 1 w]
  by (auto simp: get_unique_filename_def)

lemma numbered_name_report:
  "numbered_name ''report.txt'' (Suc 0) = ''report 1.txt''"
  "numbered_name ''report.txt'' (Suc (Suc 0)) = ''report 2.txt''"
  by (simp_all add: numbered_name_def splitext_def rfind_def splitext_scan.simps
        str_nat.simps digit_char_def)

text \<open>
  C1. In every world, for every destination directory and file name,
  \<^verbatim>\<open>get_unique_filename\<close> returns the first candidate that does not exist: the result is
  candidate \<open>k\<close> for some \<open>k\<close>, it does not exist, and every candidate before it (the name
  itself and the counters \<open>1, ..., k - 1\<close>, none left out) exists. So with \<open>report.txt\<close>
  present and \<open>report 1.txt\<close> absent the result is \<open>report 1.txt\<close>, and with both present
  and \<open>report 2.txt\<close> absent it is \<open>report 2.txt\<close>.
\<close>

theorem get_unique_filename_collision_law:
  "(\<exists>k. get_unique_filename w d f = candidate d f k
        \<and> \<not> os_path_exists w (get_unique_filename w d f)
        \<and> (\<forall>j<k. os_path_exists w (candidate d f j)))
   \<and> (os_path_exists w (os_path_join d ''report.txt'')
        \<and> \<not> os_path_exists w (os_path_join d ''report 1.txt'')
      \<longrightarrow> get_unique_filename w d ''report.txt'' = os_path_join d ''report 1.txt'')
   \<and> (os_path_exists w (os_path_join d ''report.txt'')
        \<and> os_path_exists w (os_path_join d ''report 1.txt'')
        \<and> \<not> os_path_exists w (os_path_join d ''report 2.txt'')
      \<longrightarrow> get_unique_filename w d ''report.txt'' = os_path_join d ''report 2.txt'')"
proof (intro conjI impI)
  show "\<exists>k. get_unique_filename w d f = candidate d f k
        \<and> \<not> os_path_exists w (get_unique_filename w d f)
        \<and> (\<forall>j<k. os_path_exists w (candidate d f j))"
    using get_unique_filename_first_free [of w d f] by auto
next
  let ?f = "''report.txt''"
  assume a: "os_path_exists w (os_path_join d ?f)
               \<and> \<not> os_path_exists w (os_path_join d ''report 1.txt'')"
  obtain k where k: "get_unique_filename w d ?f = candidate d ?f k"
    "\<not> os_path_exists w (candidate d ?f k)" "\<forall>j<k. os_path_exists w (candidate d ?f j)"
    using get_unique_filename_first_free [of w d ?f] by blast
  have "k \<noteq> 0" using a k(2) by (cases k) auto
  moreover have "\<not> 1 < k"
  proof
    assume "1 < k"
    then have "Suc 0 < k" by simp
    with k(3) have "os_path_exists w (candidate d ?f (Suc 0))" by blast
    with a show False by (simp add: numbered_name_report)
  qed
  ultimately have "k = Suc 0" by simp
  with k(1) show "get_unique_filename w d ?f = os_path_join d ''report 1.txt''"
    by (simp add: numbered_name_report)
next
  let ?f = "''report.txt''"
  assume a: "os_path_exists w (os_path_join d ?f)
               \<and> os_path_exists w (os_path_join d ''report 1.txt'')
               \<and> \<not> os_path_exists w (os_path_join d ''report 2.txt'')"
  obtain k where k: "get_unique_filename w d ?f = candidate d ?f k"
    "\<not> os_path_exists w (candidate d ?f k)" "\<forall>j<k. os_path_exists w (candidate d ?f j)"
    using get_unique_filename_first_free [of w d ?f] by blast
  have "k \<noteq> 0" using a k(2) by (cases k) auto
  moreover have "k \<noteq> Suc 0" using a k(2) by (auto simp: numbered_name_report)
  moreover have "\<not> 2 < k"
  proof
    assume "2 < k"
    then have "Suc (Suc 0) < k" by simp
    with k(3) have "os_path_exists w (candidate d ?f (Suc (Suc 0)))" by blast
    with a show False by (simp add: numbered_name_report)
  qed
  ultimately have "k = Suc (Suc 0)" by arith
  with k(1) show "get_unique_filename w d ?f = os_path_join d ''report 2.txt''"
    by (simp add: numbered_name_report)
qed

theorem get_unique_filename_collision_law_witness:
  "os_path_exists occupied_world (os_path_join ''/dst'' ''report.txt'')
   \<and> os_path_exists occupied_world (os_path_join ''/dst'' ''report 1.txt'')
   \<and> \<not> os_path_exists occupied_world (os_path_join ''/dst'' ''report 2.txt'')
   \<and> get_unique_filename occupied_world ''/dst'' ''report.txt'' = ''/dst/report 2.txt''"
proof -
  have 1: "os_path_exists occupied_world (os_path_join ''/dst'' ''report.txt'')"
    by (simp add: occupied_world_def os_path_exists_def lookup_path_def resolve_def
          node_at_def os_path_join_def)
  have 2: "os_path_exists occupied_world (os_path_join ''/dst'' ''report 1.txt'')"
    by (simp add: occupied_world_def os_path_exists_def lookup_path_def resolve_def
          node_at_def os_path_join_def)
  have 3: "\<not> os_path_exists occupied_world (os_path_join ''/dst'' ''report 2.txt'')"
    by (simp add: occupied_world_def os_path_exists_def lookup_path_def resolve_def
          node_at_def os_path_join_def)
  have 4: "os_path_join ''/dst'' ''report 2.txt'' = ''/dst/report 2.txt''"
    by (simp add: os_path_join_def)
  from get_unique_filename_collision_law [of occupied_world "''/dst''" "''report.txt''"] 1 2 3 4
  show ?thesis by simp
qed

section \<open>What the calls leave unchanged\<close>

lemma os_makedirs_frame: "os_makedirs w p = (e, w') \<Longrightarrow> \<exists>f. w' = w\<lparr>files := f\<rparr>"
  by (auto simp: os_makedirs_def split: if_splits prod.splits intro: exI [of _ "files w"])

lemma copyfile_stat_frame: "copyfile_stat w s d = (e, w') \<Longrightarrow> \<exists>f. w' = w\<lparr>files := f\<rparr>"
  by (auto simp: copyfile_stat_def Let_def split: if_splits option.splits node.splits
           intro: exI [of _ "files w"])

lemma shutil_copy2_frame: "shutil_copy2 w s d = (e, w') \<Longrightarrow> \<exists>f. w' = w\<lparr>files := f\<rparr>"
  unfolding shutil_copy2_def by (rule copyfile_stat_frame)

lemma os_unlink_frame: "os_unlink w p = (e, w') \<Longrightarrow> \<exists>f. w' = w\<lparr>files := f\<rparr>"
  by (auto simp: os_unlink_def split: option.splits node.splits intro: exI [of _ "files w"])

lemma os_rename_frame: "os_rename w s d = (e, w') \<Longrightarrow> \<exists>f. w' = w\<lparr>files := f\<rparr>"
  by (auto simp: os_rename_def Let_def split: if_splits option.splits node.splits
           intro: exI [of _ "files w"])

lemma shutil_move_frame: "shutil_move w s d = (e, w') \<Longrightarrow> \<exists>f. w' = w\<lparr>files := f\<rparr>"
proof -
  assume a: "shutil_move w s d = (e, w')"
  have u: "\<exists>f. w2 = w\<lparr>files := f\<rparr>" if "w1 = w\<lparr>files := g\<rparr>" "os_unlink w1 s = (e2, w2)"
    for w1 w2 g e2
    using os_unlink_frame [OF that(2)] that(1) by auto
  show ?thesis
    using a
    by (auto simp: shutil_move_def Let_def
             split: if_splits option.splits node.splits prod.splits
             dest!: os_rename_frame shutil_copy2_frame
             intro: exI [of _ "files w"] u)
qed

lemma os_rename_src_exists: "os_rename w s d = (None, w') \<Longrightarrow> os_path_exists w s"
  by (auto simp: os_rename_def os_path_exists_def Let_def split: option.splits)

lemma copyfile_stat_src_exists: "copyfile_stat w s d = (None, w') \<Longrightarrow> os_path_exists w s"
  by (auto simp: copyfile_stat_def os_path_exists_def Let_def split: option.splits if_splits)

lemma shutil_move_src_exists: "shutil_move w s d = (None, w') \<Longrightarrow> os_path_exists w s"
  by (auto simp: shutil_move_def shutil_copy2_def Let_def
           split: if_splits option.splits node.splits prod.splits
           dest: os_rename_src_exists copyfile_stat_src_exists)

lemma os_makedirs_keeps:
  "os_makedirs w p = (e, w') \<Longrightarrow>
   archive_calls w' = archive_calls w \<and> logs w' = logs w \<and> clock w' = clock w \<and> cwd w' = cwd w"
  by (drule os_makedirs_frame) auto

lemma shutil_copy2_keeps:
  "shutil_copy2 w s d = (e, w') \<Longrightarrow>
   archive_calls w' = archive_calls w \<and> logs w' = logs w \<and> clock w' = clock w \<and> cwd w' = cwd w"
  by (drule shutil_copy2_frame) auto


lemma archive_file_calls:
  "archive_calls (snd (archive_file p d w)) = archive_calls w @ [(p, d)]"
  by (auto simp: archive_file_def Let_def split: prod.splits option.splits
           dest!: os_makedirs_keeps shutil_copy2_keeps)

lemma move_file_never_raises: "fst (move_file src base exts sorted_name archive_name w) = None"
  by (simp add: move_file_def Let_def split: option.splits prod.splits)

lemma on_created_never_raises: "fst (on_created self ev w) = None"
  by (simp add: on_created_def move_file_never_raises)

section \<open>Evaluating the example worlds\<close>

lemmas path_defs = os_path_join_def basename_def splitext_def rfind_def splitext_scan.simps
  lower_def lower_char_def upper_letters_def lower_letters_def numbered_name_def str_nat.simps digit_char_def rstrip_sep_def

lemmas fs_defs = os_path_exists_def os_path_isdir_def lookup_path_def resolve_def node_at_def
  entry_access_def samefile_def below_def has_children_def rekey_def

lemmas call_defs = os_makedirs_def copyfile_stat_def shutil_copy2_def os_unlink_def
  os_rename_def shutil_move_def zfill_def strftime_Ymd_def get_unique_filename_def
  get_unique_loop.simps

lemma sorter_classify:
  "map_of sorter_map (lower (snd (splitext ''/base/in/report.txt''))) = Some ''docs''"
  "map_of sorter_map (lower (snd (splitext ''/base/in/ghost.txt''))) = Some ''docs''"
  "map_of sorter_map (lower (snd (splitext ''/base/in/notes.md''))) = None"
  by (simp_all add: sorter_map_def path_defs)

lemma sorter_paths:
  "os_path_join (os_path_join ''/base'' ''sorted'') ''docs'' = ''/base/sorted/docs''"
  "os_path_join ''/base'' ''archive'' = ''/base/archive''"
  "basename ''/base/in/report.txt'' = ''report.txt''"
  "basename ''/base/in/ghost.txt'' = ''ghost.txt''"
  by (simp_all add: path_defs)

lemma sorter_unique:
  "get_unique_filename sorter_world ''/base/sorted/docs'' ''report.txt''
     = ''/base/sorted/docs/report 1.txt''"
  "get_unique_filename sorter_world ''/base/sorted/docs'' ''ghost.txt''
     = ''/base/sorted/docs/ghost.txt''"
  by (simp_all add: sorter_world_def path_defs fs_defs call_defs)

lemma sorter_move:
  "shutil_move sorter_world ''/base/in/report.txt'' ''/base/sorted/docs/report 1.txt''
     = (None, sorter_world\<lparr>files := moved_files\<rparr>)"
  by (simp add: sorter_world_def moved_files_def path_defs fs_defs call_defs)

lemma sorter_move_ghost:
  "shutil_move sorter_world ''/base/in/ghost.txt'' ''/base/sorted/docs/ghost.txt''
     = (Some FileNotFoundError, sorter_world)"
  by (simp add: sorter_world_def path_defs fs_defs call_defs)

lemma sorter_date: "strftime_Ymd (clock sorter_world) = ''2026-11-03''"
  by (simp add: sorter_world_def strftime_Ymd_def zfill_def str_nat.simps digit_char_def)

lemma sorter_archive:
  "archive_file ''/base/sorted/docs/report 1.txt'' ''/base/archive''
     (sorter_world\<lparr>files := moved_files, logs := l\<rparr>)
   = (None, sorter_world\<lparr>files := archived_files,
        logs := l @ [(INFO, Archived ''/base/sorted/docs/report 1.txt'' ''/base/archive/2026-11-03'')],
        archive_calls := [(''/base/sorted/docs/report 1.txt'', ''/base/archive'')]\<rparr>)"
proof -
  have a: "archive_calls sorter_world = []" by (simp add: sorter_world_def)
  have m: "os_makedirs (sorter_world\<lparr>files := moved_files, logs := l, archive_calls := x\<rparr>)
             ''/base/archive/2026-11-03''
           = (None, sorter_world\<lparr>files := moved_files
                      @ [([''base'', ''archive'', ''2026-11-03''], Dir True)],
                    logs := l, archive_calls := x\<rparr>)" for x
    by (simp add: sorter_world_def moved_files_def os_makedirs_def resolve_def node_at_def)
  have p: "shutil_copy2 (sorter_world\<lparr>files := moved_files
                      @ [([''base'', ''archive'', ''2026-11-03''], Dir True)],
                    logs := l, archive_calls := x\<rparr>)
             ''/base/sorted/docs/report 1.txt'' ''/base/archive/2026-11-03''
           = (None, sorter_world\<lparr>files := archived_files, logs := l, archive_calls := x\<rparr>)" for x
    by (simp add: sorter_world_def moved_files_def archived_files_def shutil_copy2_def
          copyfile_stat_def path_defs fs_defs)
  show ?thesis
    by (simp add: archive_file_def Let_def sorter_date sorter_paths a m p os_path_join_def)
qed

lemma sorter_move_file:
  "move_file ''/base/in/report.txt'' ''/base'' sorter_map ''sorted'' ''archive'' sorter_world
   = (None, sorter_world\<lparr>files := archived_files,
        logs := [(INFO, Moved ''/base/in/report.txt'' ''/base/sorted/docs/report 1.txt''),
                 (INFO, Archived ''/base/sorted/docs/report 1.txt'' ''/base/archive/2026-11-03'')],
        archive_calls := [(''/base/sorted/docs/report 1.txt'', ''/base/archive'')]\<rparr>)"
proof -
  have l: "logs sorter_world = []" by (simp add: sorter_world_def)
  show ?thesis
    by (simp add: move_file_def Let_def sorter_classify sorter_paths sorter_unique sorter_move
          sorter_archive l)
qed

section \<open>Dispatch: \<^verbatim>\<open>move_file\<close>\<close>

text \<open>
  C2. When the lowercased extension of the source path is not a key of the extension
  map, \<^verbatim>\<open>move_file\<close> returns normally after logging one warning: the file system is the
  same (the file is still at its path), \<^verbatim>\<open>archive_file\<close> is not called, nothing is
  raised.
\<close>

theorem move_file_unsupported_extension:
  assumes "map_of exts (lower (snd (splitext src))) = None"
  shows "move_file src base exts sorted_name archive_name w =
           (None, w\<lparr>logs := logs w @ [(WARNING, Unknown_unsupported_file_type src)]\<rparr>)
         \<and> files (snd (move_file src base exts sorted_name archive_name w))
             = files w
         \<and> lookup_path (snd (move_file src base exts sorted_name archive_name w))
             src = lookup_path w src
         \<and> archive_calls (snd (move_file src base exts sorted_name archive_name w))
             = archive_calls w"
  using assms by (simp add: move_file_def Let_def lookup_path_def)

theorem move_file_unsupported_extension_witness:
  "map_of sorter_map (lower (snd (splitext ''/base/in/notes.md''))) = None
   \<and> move_file ''/base/in/notes.md'' ''/base'' sorter_map ''sorted'' ''archive'' sorter_world =
       (None, sorter_world\<lparr>logs := [(WARNING, Unknown_unsupported_file_type ''/base/in/notes.md'')]\<rparr>)
   \<and> lookup_path (snd (move_file ''/base/in/notes.md'' ''/base'' sorter_map ''sorted'' ''archive''
         sorter_world)) ''/base/in/notes.md'' = Some (File ''memo'' 31 True)"
proof -
  have h: "map_of sorter_map (lower (snd (splitext ''/base/in/notes.md''))) = None"
    by (simp add: sorter_map_def path_defs)
  have l: "lookup_path sorter_world ''/base/in/notes.md'' = Some (File ''memo'' 31 True)"
    by (simp add: sorter_world_def fs_defs)
  have g: "logs sorter_world = []" by (simp add: sorter_world_def)
  have e: "lookup_path (sorter_world\<lparr>logs := x\<rparr>) p = lookup_path sorter_world p" for x p
    by (simp add: lookup_path_def)
  from move_file_unsupported_extension [OF h, of "''/base''" "''sorted''" "''archive''" sorter_world]
    h l g show ?thesis by (simp add: e)
qed

text \<open>
  C3. When \<^verbatim>\<open>shutil.move\<close> to the resolved destination raises, \<^verbatim>\<open>move_file\<close> returns
  normally with one more log record, at error level and carrying the exception;
  \<^verbatim>\<open>archive_file\<close> is not called, and the handler returns normally on the next event
  too.
\<close>

theorem move_file_failed_move:
  assumes "map_of exts (lower (snd (splitext src))) = Some category"
    and "shutil_move w src
           (get_unique_filename w (os_path_join (os_path_join base sorted_name) category)
              (basename src)) = (Some e, w1)"
  shows "move_file src base exts sorted_name archive_name w =
           (None, w1\<lparr>logs := logs w @ [(ERROR, Error_moving_file e)]\<rparr>)
         \<and> archive_calls (snd (move_file src base exts sorted_name archive_name w))
             = archive_calls w
         \<and> fst (on_created self ev (snd (move_file src base exts sorted_name archive_name w)))
             = None"
proof -
  from shutil_move_frame [OF assms(2)] obtain f where "w1 = w\<lparr>files := f\<rparr>" by blast
  with assms show ?thesis by (simp add: move_file_def Let_def on_created_never_raises)
qed

theorem move_file_failed_move_witness:
  "map_of sorter_map (lower (snd (splitext ''/base/in/ghost.txt''))) = Some ''docs''
   \<and> shutil_move sorter_world ''/base/in/ghost.txt''
        (get_unique_filename sorter_world
           (os_path_join (os_path_join ''/base'' ''sorted'') ''docs'')
           (basename ''/base/in/ghost.txt'')) = (Some FileNotFoundError, sorter_world)
   \<and> move_file ''/base/in/ghost.txt'' ''/base'' sorter_map ''sorted'' ''archive'' sorter_world
       = (None, sorter_world\<lparr>logs := [(ERROR, Error_moving_file FileNotFoundError)]\<rparr>)
   \<and> archive_calls (snd (move_file ''/base/in/ghost.txt'' ''/base'' sorter_map ''sorted''
        ''archive'' sorter_world)) = []"
proof -
  have h1: "map_of sorter_map (lower (snd (splitext ''/base/in/ghost.txt''))) = Some ''docs''"
    by (rule sorter_classify)
  have h2: "shutil_move sorter_world ''/base/in/ghost.txt''
        (get_unique_filename sorter_world
           (os_path_join (os_path_join ''/base'' ''sorted'') ''docs'')
           (basename ''/base/in/ghost.txt'')) = (Some FileNotFoundError, sorter_world)"
    by (simp add: sorter_paths sorter_unique sorter_move_ghost)
  have l: "logs sorter_world = []" "archive_calls sorter_world = []"
    by (simp_all add: sorter_world_def)
  from move_file_failed_move [OF h1 h2, of "''archive''"] h1 h2 l show ?thesis by simp
qed

text \<open>
  C4. When \<^verbatim>\<open>shutil.move\<close> succeeds, \<^verbatim>\<open>move_file\<close> calls \<^verbatim>\<open>archive_file\<close> exactly once,
  with the path \<^verbatim>\<open>get_unique_filename\<close> returned (the final destination) and the
  archive directory; that path is not the source path.
\<close>

theorem move_file_archives_final_destination:
  assumes "map_of exts (lower (snd (splitext src))) = Some category"
    and "shutil_move w src
           (get_unique_filename w (os_path_join (os_path_join base sorted_name) category)
              (basename src)) = (None, w1)"
  shows "archive_calls (snd (move_file src base exts sorted_name archive_name w))
           = archive_calls w
               @ [(get_unique_filename w (os_path_join (os_path_join base sorted_name) category)
                     (basename src),
                   os_path_join base archive_name)]
         \<and> get_unique_filename w (os_path_join (os_path_join base sorted_name) category)
              (basename src) \<noteq> src"
proof -
  let ?final = "get_unique_filename w (os_path_join (os_path_join base sorted_name) category)
                  (basename src)"
  from shutil_move_frame [OF assms(2)] obtain f where w1: "w1 = w\<lparr>files := f\<rparr>" by blast
  let ?w2 = "w1\<lparr>logs := logs w1 @ [(INFO, Moved src ?final)]\<rparr>"
  obtain e3 w3 where a: "archive_file ?final (os_path_join base archive_name) ?w2 = (e3, w3)"
    by (cases "archive_file ?final (os_path_join base archive_name) ?w2")
  have "archive_calls w3 = archive_calls ?w2 @ [(?final, os_path_join base archive_name)]"
    using archive_file_calls [of ?final "os_path_join base archive_name" ?w2] a by simp
  then have c: "archive_calls w3 = archive_calls w @ [(?final, os_path_join base archive_name)]"
    by (simp add: w1)
  have 1: "archive_calls (snd (move_file src base exts sorted_name archive_name w))
           = archive_calls w @ [(?final, os_path_join base archive_name)]"
    using assms a c by (cases e3) (simp_all add: move_file_def Let_def)
  have "os_path_exists w src" using assms(2) by (rule shutil_move_src_exists)
  moreover have "\<not> os_path_exists w ?final"
    using get_unique_filename_first_free
      [of w "os_path_join (os_path_join base sorted_name) category" "basename src"]
    by auto
  ultimately have 2: "?final \<noteq> src" by auto
  from 1 2 show ?thesis by simp
qed

theorem move_file_archives_final_destination_witness:
  "map_of sorter_map (lower (snd (splitext ''/base/in/report.txt''))) = Some ''docs''
   \<and> shutil_move sorter_world ''/base/in/report.txt''
        (get_unique_filename sorter_world
           (os_path_join (os_path_join ''/base'' ''sorted'') ''docs'')
           (basename ''/base/in/report.txt'')) = (None, sorter_world\<lparr>files := moved_files\<rparr>)
   \<and> archive_calls (snd (move_file ''/base/in/report.txt'' ''/base'' sorter_map ''sorted''
        ''archive'' sorter_world)) = [(''/base/sorted/docs/report 1.txt'', ''/base/archive'')]"
proof -
  have h1: "map_of sorter_map (lower (snd (splitext ''/base/in/report.txt''))) = Some ''docs''"
    by (rule sorter_classify)
  have h2: "shutil_move sorter_world ''/base/in/report.txt''
        (get_unique_filename sorter_world
           (os_path_join (os_path_join ''/base'' ''sorted'') ''docs'')
           (basename ''/base/in/report.txt'')) = (None, sorter_world\<lparr>files := moved_files\<rparr>)"
    by (simp add: sorter_paths sorter_unique sorter_move)
  have l: "archive_calls sorter_world = []"
    by (simp add: sorter_world_def)
  from move_file_archives_final_destination [OF h1 h2, of "''archive''"] h1 h2 l
  show ?thesis by (simp add: sorter_paths sorter_unique)
qed

section \<open>The archive: \<^verbatim>\<open>archive_file\<close>\<close>

subsection \<open>Directories made by \<^verbatim>\<open>os.makedirs\<close>, files written by \<^verbatim>\<open>shutil.copy2\<close>\<close>

lemma node_at_update_other: "k' \<noteq> k \<Longrightarrow> node_at (AList.update k v f) k' = node_at f k'"
  by (simp add: node_at_def update_conv')

lemma node_at_update_same: "k \<noteq> [] \<Longrightarrow> node_at (AList.update k v f) k = Some v"
  by (simp add: node_at_def update_conv')

lemma node_at_snoc_update: "node_at (AList.update (cur @ [c]) v f) (cur @ [c]) = Some v"
  by (simp add: node_at_update_same)

lemma dir_at_root: "dir_at f []"
  by (simp add: dir_at_def node_at_def)

lemma os_path_isdir_iff:
  "os_path_isdir w p \<longleftrightarrow> p \<noteq> [] \<and> dir_at (files w) (resolve (cwd w) p)"
  by (simp add: os_path_isdir_def lookup_path_def dir_at_def)

lemma mkdirs_step_absent:
  "node_at f (cur @ [c]) = None \<Longrightarrow>
   mkdirs f cur (c # cs) =
     (if node_at f cur = Some (Dir True)
      then mkdirs (AList.update (cur @ [c]) (Dir True) f) (cur @ [c]) cs
      else (Some PermissionError, f))"
  by (auto split: option.splits node.splits bool.splits)

lemma mkdirs_step_dir:
  "node_at f (cur @ [c]) = Some (Dir b) \<Longrightarrow> mkdirs f cur (c # cs) = mkdirs f (cur @ [c]) cs"
  by simp

lemma mkdirs_step_file:
  "node_at f (cur @ [c]) = Some (File x m fw) \<Longrightarrow>
   mkdirs f cur (c # cs) = (Some (if cs = [] then FileExistsError else NotADirectoryError), f)"
  by simp

lemma mkdirs_preserves:
  "mkdirs f cur cs = (e, f') \<Longrightarrow> node_at f k = Some n \<Longrightarrow> node_at f' k = Some n"
proof (induction cs arbitrary: f cur)
  case Nil
  then show ?case by simp
next
  case (Cons c cs)
  show ?case
  proof (cases "node_at f (cur @ [c])")
    case None
    show ?thesis
    proof (cases "node_at f cur = Some (Dir True)")
      case True
      let ?g = "AList.update (cur @ [c]) (Dir True) f"
      have "k \<noteq> cur @ [c]" using Cons.prems(2) None by auto
      then have "node_at ?g k = Some n"
        using Cons.prems(2) by (simp add: node_at_update_other)
      moreover have "mkdirs ?g (cur @ [c]) cs = (e, f')"
        using Cons.prems(1) True by (simp add: mkdirs_step_absent [OF None] del: mkdirs.simps)
      ultimately show ?thesis using Cons.IH by blast
    next
      case False
      with Cons.prems show ?thesis by (simp add: mkdirs_step_absent [OF None] del: mkdirs.simps)
    qed
  next
    case (Some a)
    show ?thesis
    proof (cases a)
      case (File x m fw)
      with Some Cons.prems show ?thesis by (simp add: mkdirs_step_file del: mkdirs.simps)
    next
      case (Dir b)
      with Some Cons.prems have "mkdirs f (cur @ [c]) cs = (e, f')"
        by (simp add: mkdirs_step_dir del: mkdirs.simps)
      with Cons.IH Cons.prems(2) show ?thesis by blast
    qed
  qed
qed








lemma mkdirs_keeps_dirs: "mkdirs f cur cs = (e, f') \<Longrightarrow> dir_at f k \<Longrightarrow> dir_at f' k"
proof -
  assume m: "mkdirs f cur cs = (e, f')" and d: "dir_at f k"
  from d obtain b where "node_at f k = Some (Dir b)"
    by (auto simp: dir_at_def split: option.splits node.splits)
  from mkdirs_preserves [OF m this] show ?thesis by (simp add: dir_at_def)
qed

lemma dirs_along_mono:
  "dirs_along f cur cs \<Longrightarrow> (\<And>k. dir_at f k \<Longrightarrow> dir_at g k) \<Longrightarrow> dirs_along g cur cs"
  by (induction cs arbitrary: cur) auto

lemma dirs_along_last: "dirs_along f cur cs \<Longrightarrow> dir_at f cur \<Longrightarrow> dir_at f (cur @ cs)"
proof (induction cs arbitrary: cur)
  case Nil
  then show ?case by simp
next
  case (Cons c cs)
  from Cons.IH [of "cur @ [c]"] Cons.prems show ?case by simp
qed

lemma mkdirs_noop: "dirs_along f cur cs \<Longrightarrow> mkdirs f cur cs = (None, f)"
proof (induction cs arbitrary: cur)
  case Nil
  then show ?case by simp
next
  case (Cons c cs)
  then obtain b where "node_at f (cur @ [c]) = Some (Dir b)"
    by (auto simp: dir_at_def split: option.splits node.splits)
  with Cons show ?case by (simp add: mkdirs_step_dir del: mkdirs.simps)
qed

lemma mkdirs_dirs_along: "mkdirs f cur cs = (None, f') \<Longrightarrow> dirs_along f' cur cs"
proof (induction cs arbitrary: f cur)
  case Nil
  then show ?case by simp
next
  case (Cons c cs)
  show ?case
  proof (cases "node_at f (cur @ [c])")
    case None
    show ?thesis
    proof (cases "node_at f cur = Some (Dir True)")
      case True
      let ?g = "AList.update (cur @ [c]) (Dir True) f"
      have m: "mkdirs ?g (cur @ [c]) cs = (None, f')"
        using Cons.prems True by (simp add: mkdirs_step_absent [OF None] del: mkdirs.simps)
      have "dir_at ?g (cur @ [c])" by (simp add: dir_at_def node_at_snoc_update)
      with m have "dir_at f' (cur @ [c])" by (rule mkdirs_keeps_dirs)
      moreover from m have "dirs_along f' (cur @ [c]) cs" by (rule Cons.IH)
      ultimately show ?thesis by simp
    next
      case False
      with Cons.prems show ?thesis by (simp add: mkdirs_step_absent [OF None] del: mkdirs.simps)
    qed
  next
    case (Some a)
    show ?thesis
    proof (cases a)
      case (File x m fw)
      with Some Cons.prems show ?thesis by (simp add: mkdirs_step_file del: mkdirs.simps)
    next
      case (Dir b)
      with Some Cons.prems have m: "mkdirs f (cur @ [c]) cs = (None, f')"
        by (simp add: mkdirs_step_dir del: mkdirs.simps)
      have "dir_at f (cur @ [c])" using Some Dir by (simp add: dir_at_def)
      with m have "dir_at f' (cur @ [c])" by (rule mkdirs_keeps_dirs)
      moreover from m have "dirs_along f' (cur @ [c]) cs" by (rule Cons.IH)
      ultimately show ?thesis by simp
    qed
  qed
qed

lemma os_makedirs_made: "os_makedirs w p = (None, w') \<Longrightarrow> made w' p"
  by (auto simp: os_makedirs_def made_def split: if_splits prod.splits dest: mkdirs_dirs_along)

lemma made_noop: "made w p \<Longrightarrow> os_makedirs w p = (None, w)"
  by (simp add: os_makedirs_def made_def mkdirs_noop)

lemma made_kept: "made w p \<Longrightarrow> os_makedirs w q = (e, w') \<Longrightarrow> made w' p"
proof -
  assume a: "made w p" and m: "os_makedirs w q = (e, w')"
  show ?thesis
  proof (cases "q = []")
    case True
    with a m show ?thesis by (simp add: os_makedirs_def)
  next
    case False
    with m obtain f where f: "mkdirs (files w) [] (resolve (cwd w) q) = (e, f)"
      and w': "w' = w\<lparr>files := f\<rparr>"
      by (auto simp: os_makedirs_def split: prod.splits)
    have "dirs_along f [] (resolve (cwd w) p)"
      using a mkdirs_keeps_dirs [OF f] by (auto simp: made_def intro: dirs_along_mono)
    with a w' show ?thesis by (simp add: made_def)
  qed
qed

lemma made_isdir: "made w p \<Longrightarrow> os_path_isdir w p"
  using dirs_along_last [of "files w" "[]" "resolve (cwd w) p"]
  by (simp add: made_def os_path_isdir_iff dir_at_root)

subsection \<open>The date folder\<close>








lemma lookup_path_logs [simp]: "lookup_path (w\<lparr>logs := l\<rparr>) p = lookup_path w p"
  by (simp add: lookup_path_def)

lemma lookup_path_archive_calls [simp]:
  "lookup_path (w\<lparr>archive_calls := a\<rparr>) p = lookup_path w p"
  by (simp add: lookup_path_def)

lemma os_path_isdir_logs [simp]: "os_path_isdir (w\<lparr>logs := l\<rparr>) p = os_path_isdir w p"
  by (simp add: os_path_isdir_def)




subsection \<open>Archiving the same name twice on one day\<close>


lemma made_archive_calls [simp]: "made (w\<lparr>archive_calls := a\<rparr>) p = made w p"
  by (simp add: made_def)

lemma samefile_archive_calls [simp]: "samefile (w\<lparr>archive_calls := a\<rparr>) p q = samefile w p q"
  by (simp add: samefile_def)

lemma os_path_isdir_archive_calls [simp]:
  "os_path_isdir (w\<lparr>archive_calls := a\<rparr>) p = os_path_isdir w p"
  by (simp add: os_path_isdir_def)





















subsection \<open>Errors of \<^verbatim>\<open>os.makedirs\<close>\<close>

lemma archive_file_raises_what_makedirs_raises:
  "fst (archive_file p d w)
     = fst (os_makedirs (w\<lparr>archive_calls := archive_calls w @ [(p, d)]\<rparr>)
              (os_path_join d (strftime_Ymd (clock w))))"
  by (simp add: archive_file_def Let_def split: prod.splits option.splits)

lemma locked_unique:
  "get_unique_filename locked_archive_world ''/base/sorted/docs'' ''report.txt''
     = ''/base/sorted/docs/report.txt''"
  by (simp add: locked_archive_world_def path_defs fs_defs call_defs)

lemma locked_move:
  "shutil_move locked_archive_world ''/base/in/report.txt'' ''/base/sorted/docs/report.txt''
     = (None, locked_archive_world\<lparr>files := locked_moved_files\<rparr>)"
  by (simp add: locked_archive_world_def locked_moved_files_def path_defs fs_defs call_defs)

lemma locked_archive:
  "archive_file ''/base/sorted/docs/report.txt'' ''/base/archive''
     (locked_archive_world\<lparr>files := locked_moved_files, logs := l\<rparr>)
   = (Some PermissionError,
      locked_archive_world\<lparr>files := locked_moved_files, logs := l,
        archive_calls := [(''/base/sorted/docs/report.txt'', ''/base/archive'')]\<rparr>)"
proof -
  have d: "strftime_Ymd (clock locked_archive_world) = ''2026-11-03''"
    by (simp add: locked_archive_world_def strftime_Ymd_def zfill_def str_nat.simps digit_char_def)
  have m: "os_makedirs (locked_archive_world\<lparr>files := locked_moved_files, logs := l,
               archive_calls := x\<rparr>) ''/base/archive/2026-11-03''
             = (Some PermissionError, locked_archive_world\<lparr>files := locked_moved_files,
                  logs := l, archive_calls := x\<rparr>)" for x
    by (simp add: locked_archive_world_def locked_moved_files_def os_makedirs_def resolve_def
          node_at_def)
  have a: "archive_calls locked_archive_world = []"
    by (simp add: locked_archive_world_def)
  show ?thesis
    by (simp add: archive_file_def Let_def d m a os_path_join_def)
qed

text \<open>
  C5, at a failing input. With a read-only archive directory \<^verbatim>\<open>os.makedirs\<close> raises
  \<^verbatim>\<open>PermissionError\<close> before the \<^verbatim>\<open>try\<close> of \<^verbatim>\<open>archive_file\<close>: the exception leaves
  \<^verbatim>\<open>archive_file\<close> with nothing logged there. \<^verbatim>\<open>move_file\<close> catches it and logs it as
  an error of the move, although the file was moved.
\<close>

theorem archive_file_makedirs_error_escapes:
  "archive_file ''/base/sorted/docs/report.txt'' ''/base/archive''
     (locked_archive_world\<lparr>files := locked_moved_files\<rparr>)
   = (Some PermissionError,
      locked_archive_world\<lparr>files := locked_moved_files,
        archive_calls := [(''/base/sorted/docs/report.txt'', ''/base/archive'')]\<rparr>)
   \<and> move_file ''/base/in/report.txt'' ''/base'' sorter_map ''sorted'' ''archive''
        locked_archive_world
     = (None,
        locked_archive_world\<lparr>files := locked_moved_files,
          logs := [(INFO, Moved ''/base/in/report.txt'' ''/base/sorted/docs/report.txt''),
                   (ERROR, Error_moving_file PermissionError)],
          archive_calls := [(''/base/sorted/docs/report.txt'', ''/base/archive'')]\<rparr>)"
proof -
  have l: "logs locked_archive_world = []" by (simp add: locked_archive_world_def)
  have a: "archive_file ''/base/sorted/docs/report.txt'' ''/base/archive''
     (locked_archive_world\<lparr>files := locked_moved_files\<rparr>)
   = (Some PermissionError,
      locked_archive_world\<lparr>files := locked_moved_files,
        archive_calls := [(''/base/sorted/docs/report.txt'', ''/base/archive'')]\<rparr>)"
  proof -
    have d: "strftime_Ymd (clock locked_archive_world) = ''2026-11-03''"
      by (simp add: locked_archive_world_def strftime_Ymd_def zfill_def str_nat.simps
            digit_char_def)
    have m: "os_makedirs (locked_archive_world\<lparr>files := locked_moved_files,
               archive_calls := x\<rparr>) ''/base/archive/2026-11-03''
             = (Some PermissionError, locked_archive_world\<lparr>files := locked_moved_files,
                  archive_calls := x\<rparr>)" for x
      by (simp add: locked_archive_world_def locked_moved_files_def os_makedirs_def resolve_def
            node_at_def)
    have c: "archive_calls locked_archive_world = []"
      by (simp add: locked_archive_world_def)
    show ?thesis
      by (simp add: archive_file_def Let_def d m c os_path_join_def)
  qed
  have b: "move_file ''/base/in/report.txt'' ''/base'' sorter_map ''sorted'' ''archive''
        locked_archive_world
     = (None,
        locked_archive_world\<lparr>files := locked_moved_files,
          logs := [(INFO, Moved ''/base/in/report.txt'' ''/base/sorted/docs/report.txt''),
                   (ERROR, Error_moving_file PermissionError)],
          archive_calls := [(''/base/sorted/docs/report.txt'', ''/base/archive'')]\<rparr>)"
    by (simp add: move_file_def Let_def sorter_classify sorter_paths locked_unique locked_move
          locked_archive l)
  from a b show ?thesis by simp
qed

section \<open>Classification by extension\<close>











subsection \<open>The extension looked up by \<^verbatim>\<open>move_file\<close>\<close>














section \<open>The lifecycle: \<^verbatim>\<open>start_monitoring\<close> and \<^verbatim>\<open>stop_monitoring\<close>\<close>

text \<open>
  C7. When no base directory is selected (\<^verbatim>\<open>self.base_dir\<close> is \<^verbatim>\<open>None\<close> or empty),
  \<^verbatim>\<open>start_monitoring\<close> reports it with one log record (at warning level) and returns:
  no observer is constructed and the application object is unchanged.
\<close>

theorem start_monitoring_without_base_dir:
  assumes "base_dir self = None \<or> base_dir self = Some []"
  shows "start_monitoring self w
           = (self, w\<lparr>logs := logs w @ [(WARNING, No_base_directory_selected)]\<rparr>)
         \<and> observers (snd (start_monitoring self w)) = observers w
         \<and> observer (fst (start_monitoring self w)) = observer self"
  using assms by (auto simp: start_monitoring_def)

theorem start_monitoring_without_base_dir_witness:
  "base_dir (init_app sorter_config) = None
   \<and> start_monitoring (init_app sorter_config) sorter_world
       = (init_app sorter_config, sorter_world\<lparr>logs := [(WARNING, No_base_directory_selected)]\<rparr>)
   \<and> observers (snd (start_monitoring (init_app sorter_config) sorter_world)) = []"
proof -
  have h: "base_dir (init_app sorter_config) = None \<or> base_dir (init_app sorter_config) = Some []"
    by (simp add: init_app_def)
  have l: "logs sorter_world = []" "observers sorter_world = []"
    by (simp_all add: sorter_world_def)
  from start_monitoring_without_base_dir [OF h, of sorter_world] l
  show ?thesis by (simp add: init_app_def)
qed

lemma stop_monitoring_when_stopped:
  "observer self = None \<Longrightarrow> snd (stop_monitoring self w) = w"
  by (simp add: stop_monitoring_def)

lemma prepared_makedirs:
  "os_makedirs (prepared_world\<lparr>observers := obs\<rparr>) ''/base/in''
     = (None, prepared_world\<lparr>observers := obs\<rparr>)"
  "os_makedirs (prepared_world\<lparr>observers := obs\<rparr>) ''/base/sorted''
     = (None, prepared_world\<lparr>observers := obs\<rparr>)"
  "os_makedirs (prepared_world\<lparr>observers := obs\<rparr>) ''/base/archive''
     = (None, prepared_world\<lparr>observers := obs\<rparr>)"
  "os_makedirs (prepared_world\<lparr>observers := obs\<rparr>) ''/base/sorted/docs''
     = (None, prepared_world\<lparr>observers := obs\<rparr>)"
  "os_makedirs (prepared_world\<lparr>observers := obs\<rparr>) ''/base/sorted/images''
     = (None, prepared_world\<lparr>observers := obs\<rparr>)"
  by (simp_all add: prepared_world_def os_makedirs_def resolve_def node_at_def)

lemma prepared_select:
  assumes "config a = sorter_config"
  shows "select_directory ''/base'' a (prepared_world\<lparr>observers := obs\<rparr>)
         = (None, a\<lparr>base_dir := Some ''/base'', dir_label := ''/base'', start_button := NORMAL\<rparr>,
            prepared_world\<lparr>observers := obs\<rparr>)"
  using assms
  by (simp add: select_directory_def prepare_directories_def prepare_directories_in_def Let_def
        sorter_config_def sorter_map_def os_path_join_def prepared_makedirs)

lemma prepared_observers: "prepared_world\<lparr>observers := []\<rparr> = prepared_world"
  by (simp add: prepared_world_def)

lemma first_start:
  "press Start_monitoring (press (Select_directory ''/base'')
          (init_app sorter_config, prepared_world))
   = (selected_app\<lparr>observer := Some 0, start_button := DISABLED, stop_button := NORMAL\<rparr>,
      prepared_world\<lparr>observers := [sorter_observer]\<rparr>)"
proof -
  have c: "config (init_app sorter_config) = sorter_config" by (simp add: init_app_def)
  have 1: "press (Select_directory ''/base'') (init_app sorter_config, prepared_world)
             = (selected_app, prepared_world)"
    using prepared_select [OF c, of "[]"]
    by (simp add: prepared_observers) (simp add: init_app_def selected_app_def)
  have 2: "start_monitoring selected_app prepared_world
     = (selected_app\<lparr>observer := Some 0, start_button := DISABLED, stop_button := NORMAL\<rparr>,
        prepared_world\<lparr>observers := [sorter_observer]\<rparr>)"
    by (simp add: start_monitoring_def selected_app_def sorter_config_def sorter_observer_def
          Let_def os_path_join_def prepared_world_def)
  have 3: "start_button selected_app = NORMAL" by (simp add: selected_app_def)
  show ?thesis by (simp only: 1) (simp add: 2 3)
qed

lemma double_start_state:
  "double_start
   = (selected_app\<lparr>observer := Some 1, start_button := DISABLED, stop_button := NORMAL\<rparr>,
      prepared_world\<lparr>observers := [sorter_observer, sorter_observer]\<rparr>)"
proof -
  let ?a = "selected_app\<lparr>observer := Some 0, start_button := DISABLED, stop_button := NORMAL\<rparr>"
  have c: "config ?a = sorter_config" by (simp add: selected_app_def)
  have 1: "press (Select_directory ''/base'') (?a, prepared_world\<lparr>observers := [sorter_observer]\<rparr>)
             = (selected_app\<lparr>observer := Some 0, stop_button := NORMAL\<rparr>,
                prepared_world\<lparr>observers := [sorter_observer]\<rparr>)"
    using prepared_select [OF c, of "[sorter_observer]"] by (simp add: selected_app_def)
  have 2: "start_monitoring (selected_app\<lparr>observer := Some 0, stop_button := NORMAL\<rparr>)
             (prepared_world\<lparr>observers := [sorter_observer]\<rparr>)
     = (selected_app\<lparr>observer := Some 1, start_button := DISABLED, stop_button := NORMAL\<rparr>,
        prepared_world\<lparr>observers := [sorter_observer, sorter_observer]\<rparr>)"
    by (simp add: start_monitoring_def selected_app_def sorter_config_def sorter_observer_def
          Let_def os_path_join_def prepared_world_def)
  have 3: "start_button (selected_app\<lparr>observer := Some 0, stop_button := NORMAL\<rparr>) = NORMAL"
    by (simp add: selected_app_def)
  show ?thesis unfolding double_start_def first_start by (simp only: 1) (simp add: 2 3)
qed

lemma direct_double_start:
  "start_monitoring (fst (start_monitoring selected_app prepared_world))
     (snd (start_monitoring selected_app prepared_world))
   = (selected_app\<lparr>observer := Some 1, start_button := DISABLED, stop_button := NORMAL\<rparr>,
      prepared_world\<lparr>observers := [sorter_observer, sorter_observer]\<rparr>)"
  by (simp add: start_monitoring_def selected_app_def sorter_config_def sorter_observer_def
        Let_def os_path_join_def prepared_world_def)

text \<open>
  C8, at a failing input. \<^verbatim>\<open>start_monitoring\<close> does not look at \<^verbatim>\<open>self.observer\<close>: called
  on a running instance it constructs and starts a second observer on the same
  directory and logs nothing. The operator reaches it through the buttons, because
  \<^verbatim>\<open>select_directory\<close> enables the start button again while the first observer runs.
  \<^verbatim>\<open>self.observer\<close> then refers to the second observer only, so stopping ends that one
  and leaves the first running with both buttons of no use for it. (Stopping a stopped
  instance changes nothing.)
\<close>

theorem second_start_adds_a_watcher:
  "running (snd (start_monitoring (fst (start_monitoring selected_app prepared_world))
                   (snd (start_monitoring selected_app prepared_world))))
     = [sorter_observer, sorter_observer]
   \<and> running (snd (press Start_monitoring (press (Select_directory ''/base'')
          (init_app sorter_config, prepared_world)))) = [sorter_observer]
   \<and> running (snd double_start) = [sorter_observer, sorter_observer]
   \<and> logs (snd double_start) = []
   \<and> observer (fst double_start) = Some 1
   \<and> running (snd (press Stop_monitoring double_start)) = [sorter_observer]
   \<and> observer (fst (press Stop_monitoring double_start)) = None
   \<and> stop_button (fst (press Stop_monitoring double_start)) = DISABLED
   \<and> press Stop_monitoring (press Stop_monitoring double_start)
       = press Stop_monitoring double_start"
proof -
  have a: "alive sorter_observer" by (simp add: sorter_observer_def)
  have l: "logs prepared_world = []" by (simp add: prepared_world_def)
  have s: "press Stop_monitoring double_start
           = (selected_app\<lparr>observer := None, start_button := NORMAL, stop_button := DISABLED\<rparr>,
              prepared_world\<lparr>observers := [sorter_observer, sorter_observer\<lparr>alive := False\<rparr>]\<rparr>)"
    by (simp add: double_start_state stop_monitoring_def selected_app_def)
  have s2: "press Stop_monitoring (press Stop_monitoring double_start)
              = press Stop_monitoring double_start"
    unfolding s by (simp add: stop_monitoring_def selected_app_def)
  have 1: "running (snd (start_monitoring (fst (start_monitoring selected_app prepared_world))
                   (snd (start_monitoring selected_app prepared_world))))
             = [sorter_observer, sorter_observer]"
    unfolding direct_double_start by (simp add: running_def a)
  have 2: "running (snd (press Start_monitoring (press (Select_directory ''/base'')
          (init_app sorter_config, prepared_world)))) = [sorter_observer]"
    unfolding first_start by (simp add: running_def a)
  have 3: "running (snd double_start) = [sorter_observer, sorter_observer]"
    "logs (snd double_start) = []" "observer (fst double_start) = Some 1"
    unfolding double_start_state by (simp_all add: running_def a l)
  have 4: "running (snd (press Stop_monitoring double_start)) = [sorter_observer]"
    "observer (fst (press Stop_monitoring double_start)) = None"
    "stop_button (fst (press Stop_monitoring double_start)) = DISABLED"
    unfolding s by (simp_all add: running_def a)
  from 1 2 3 4 s2 show ?thesis by simp
qed

section \<open>Preparing the folder tree: \<^verbatim>\<open>prepare_directories\<close>\<close>

text \<open>
  When a path is made, \<^verbatim>\<open>os.makedirs\<close> with \<^verbatim>\<open>exist_ok=True\<close> changes nothing, and no
  later \<^verbatim>\<open>os.makedirs\<close> unmakes it.
\<close>

lemma makedirs_each_made:
  "makedirs_each w d xs = (None, w') \<Longrightarrow>
   (\<forall>x\<in>set xs. made w' (os_path_join d x)) \<and> (\<forall>p. made w p \<longrightarrow> made w' p)"
proof (induction xs arbitrary: w)
  case Nil
  then show ?case by simp
next
  case (Cons x xs)
  obtain e w1 where m: "os_makedirs w (os_path_join d x) = (e, w1)"
    by (cases "os_makedirs w (os_path_join d x)")
  with Cons.prems have e: "e = None" and r: "makedirs_each w1 d xs = (None, w')"
    by (cases e; simp)+
  from Cons.IH [OF r] have ih: "\<forall>x\<in>set xs. made w' (os_path_join d x)"
    "\<forall>p. made w1 p \<longrightarrow> made w' p" by auto
  have "made w1 (os_path_join d x)" using m e os_makedirs_made by blast
  with ih have 1: "made w' (os_path_join d x)" by blast
  have 2: "\<forall>p. made w p \<longrightarrow> made w' p" using ih(2) made_kept [OF _ m] by blast
  from 1 2 ih(1) show ?case by simp
qed

lemma makedirs_each_noop:
  "(\<forall>x\<in>set xs. made w (os_path_join d x)) \<Longrightarrow> makedirs_each w d xs = (None, w)"
  by (induction xs) (simp_all add: made_noop)

lemma prepare_directories_in_made:
  assumes "prepare_directories_in xs self w = (None, w1)"
  shows "\<exists>b. base_dir self = Some b
           \<and> made w1 (os_path_join b (incoming_directory (config self)))
           \<and> made w1 (os_path_join b (sorted_directory (config self)))
           \<and> made w1 (os_path_join b (archive_directory (config self)))
           \<and> (\<forall>x\<in>set xs. made w1 (os_path_join (os_path_join b (sorted_directory (config self))) x))"
proof -
  from assms obtain b where b: "base_dir self = Some b"
    by (cases "base_dir self") (simp_all add: prepare_directories_in_def)
  let ?i = "os_path_join b (incoming_directory (config self))"
  let ?s = "os_path_join b (sorted_directory (config self))"
  let ?a = "os_path_join b (archive_directory (config self))"
  obtain e1 wa where 1: "os_makedirs w ?i = (e1, wa)" by (cases "os_makedirs w ?i")
  obtain e2 wb where 2: "os_makedirs wa ?s = (e2, wb)" by (cases "os_makedirs wa ?s")
  obtain e3 wc where 3: "os_makedirs wb ?a = (e3, wc)" by (cases "os_makedirs wb ?a")
  from assms b 1 have e1: "e1 = None"
    by (cases e1) (simp_all add: prepare_directories_in_def Let_def)
  from assms b 1 2 e1 have e2: "e2 = None"
    by (cases e2) (simp_all add: prepare_directories_in_def Let_def)
  from assms b 1 2 3 e1 e2 have e3: "e3 = None"
    by (cases e3) (simp_all add: prepare_directories_in_def Let_def)
  from assms b 1 2 3 e1 e2 e3 have 4: "makedirs_each wc ?s xs = (None, w1)"
    by (simp add: prepare_directories_in_def Let_def)
  from makedirs_each_made [OF 4] have each: "\<forall>x\<in>set xs. made w1 (os_path_join ?s x)"
    and keep: "\<forall>p. made wc p \<longrightarrow> made w1 p" by auto
  have "made wa ?i" using 1 e1 os_makedirs_made by blast
  then have "made wb ?i" using 2 by (rule made_kept)
  then have "made wc ?i" using 3 by (rule made_kept)
  with keep have mi: "made w1 ?i" by blast
  have "made wb ?s" using 2 e2 os_makedirs_made by blast
  then have "made wc ?s" using 3 by (rule made_kept)
  with keep have ms: "made w1 ?s" by blast
  have "made wc ?a" using 3 e3 os_makedirs_made by blast
  with keep have ma: "made w1 ?a" by blast
  from b mi ms ma each show ?thesis by simp
qed

lemma prepare_directories_in_noop:
  assumes "base_dir self = Some b"
    and "made w (os_path_join b (incoming_directory (config self)))"
    and "made w (os_path_join b (sorted_directory (config self)))"
    and "made w (os_path_join b (archive_directory (config self)))"
    and "\<forall>x\<in>set ys. made w (os_path_join (os_path_join b (sorted_directory (config self))) x)"
  shows "prepare_directories_in ys self w = (None, w)"
  using assms by (simp add: prepare_directories_in_def Let_def made_noop makedirs_each_noop)

text \<open>
  C9. When \<^verbatim>\<open>prepare_directories\<close> has returned normally, calling it again returns
  normally and leaves the world as it is (no entry is added). After the first call the
  incoming, sorted and archive directories exist, and so does one directory under the
  sorted directory for every value of the extension map. The same holds whatever the
  orders in which the two calls iterate the set of values.
\<close>

theorem prepare_directories_idempotent:
  "(prepare_directories self w = (None, w1) \<longrightarrow>
      prepare_directories self w1 = (None, w1)
      \<and> (\<exists>b. base_dir self = Some b
            \<and> os_path_isdir w1 (os_path_join b (incoming_directory (config self)))
            \<and> os_path_isdir w1 (os_path_join b (sorted_directory (config self)))
            \<and> os_path_isdir w1 (os_path_join b (archive_directory (config self)))
            \<and> (\<forall>category\<in>snd ` set (extensions (config self)).
                  os_path_isdir w1
                    (os_path_join (os_path_join b (sorted_directory (config self))) category))))
   \<and> (prepare_directories_in order1 self w = (None, w1) \<and> set order2 = set order1 \<longrightarrow>
        prepare_directories_in order2 self w1 = (None, w1))"
proof (intro conjI impI)
  assume a: "prepare_directories self w = (None, w1)"
  let ?xs = "remdups (map snd (extensions (config self)))"
  from a have p: "prepare_directories_in ?xs self w = (None, w1)"
    by (simp add: prepare_directories_def)
  from prepare_directories_in_made [OF p] obtain b where b: "base_dir self = Some b"
    and m: "made w1 (os_path_join b (incoming_directory (config self)))"
      "made w1 (os_path_join b (sorted_directory (config self)))"
      "made w1 (os_path_join b (archive_directory (config self)))"
      "\<forall>x\<in>set ?xs. made w1 (os_path_join (os_path_join b (sorted_directory (config self))) x)"
    by blast
  show "prepare_directories self w1 = (None, w1)"
    unfolding prepare_directories_def using b m by (rule prepare_directories_in_noop)
  from m(4) have "\<forall>category\<in>snd ` set (extensions (config self)).
      os_path_isdir w1 (os_path_join (os_path_join b (sorted_directory (config self))) category)"
    by (auto intro: made_isdir)
  with b m show "\<exists>b. base_dir self = Some b
            \<and> os_path_isdir w1 (os_path_join b (incoming_directory (config self)))
            \<and> os_path_isdir w1 (os_path_join b (sorted_directory (config self)))
            \<and> os_path_isdir w1 (os_path_join b (archive_directory (config self)))
            \<and> (\<forall>category\<in>snd ` set (extensions (config self)).
                  os_path_isdir w1
                    (os_path_join (os_path_join b (sorted_directory (config self))) category))"
    by (auto intro: made_isdir)
next
  assume a: "prepare_directories_in order1 self w = (None, w1) \<and> set order2 = set order1"
  then have p: "prepare_directories_in order1 self w = (None, w1)" by simp
  from prepare_directories_in_made [OF p] obtain b where b: "base_dir self = Some b"
    and m: "made w1 (os_path_join b (incoming_directory (config self)))"
      "made w1 (os_path_join b (sorted_directory (config self)))"
      "made w1 (os_path_join b (archive_directory (config self)))"
      "\<forall>x\<in>set order1. made w1 (os_path_join (os_path_join b (sorted_directory (config self))) x)"
    by blast
  from m(4) a have "\<forall>x\<in>set order2.
      made w1 (os_path_join (os_path_join b (sorted_directory (config self))) x)" by simp
  with b m(1-3) show "prepare_directories_in order2 self w1 = (None, w1)"
    by (rule prepare_directories_in_noop)
qed

lemma sorter_prepare:
  "prepare_directories selected_app sorter_world
     = (None, sorter_world\<lparr>files := sorter_prepared_files\<rparr>)"
proof -
  have m: "os_makedirs sorter_world ''/base/in'' = (None, sorter_world)"
    "os_makedirs sorter_world ''/base/sorted'' = (None, sorter_world)"
    "os_makedirs sorter_world ''/base/archive'' = (None, sorter_world)"
    "os_makedirs sorter_world ''/base/sorted/docs'' = (None, sorter_world)"
    "os_makedirs sorter_world ''/base/sorted/images''
       = (None, sorter_world\<lparr>files := sorter_prepared_files\<rparr>)"
    by (simp_all add: sorter_world_def sorter_prepared_files_def os_makedirs_def resolve_def
          node_at_def)
  show ?thesis
    by (simp add: prepare_directories_def prepare_directories_in_def Let_def selected_app_def
          sorter_config_def sorter_map_def os_path_join_def m)
qed

theorem prepare_directories_idempotent_witness:
  "prepare_directories selected_app sorter_world
     = (None, sorter_world\<lparr>files := sorter_prepared_files\<rparr>)
   \<and> prepare_directories selected_app (sorter_world\<lparr>files := sorter_prepared_files\<rparr>)
     = (None, sorter_world\<lparr>files := sorter_prepared_files\<rparr>)
   \<and> os_path_isdir (sorter_world\<lparr>files := sorter_prepared_files\<rparr>) ''/base/sorted/docs''
   \<and> os_path_isdir (sorter_world\<lparr>files := sorter_prepared_files\<rparr>) ''/base/sorted/images''
   \<and> \<not> os_path_isdir sorter_world ''/base/sorted/images''"
proof -
  let ?w1 = "sorter_world\<lparr>files := sorter_prepared_files\<rparr>"
  from prepare_directories_idempotent [of selected_app sorter_world ?w1] sorter_prepare
  obtain b where 1: "prepare_directories selected_app ?w1 = (None, ?w1)"
    and b: "base_dir selected_app = Some b"
    and c: "\<forall>category\<in>snd ` set (extensions (config selected_app)).
              os_path_isdir ?w1
                (os_path_join (os_path_join b (sorted_directory (config selected_app))) category)"
    by blast
  from b have b': "b = ''/base''" by (simp add: selected_app_def)
  have "''docs'' \<in> snd ` set (extensions (config selected_app))"
    "''images'' \<in> snd ` set (extensions (config selected_app))"
    by (simp_all add: selected_app_def sorter_config_def sorter_map_def)
  with c have "os_path_isdir ?w1 (os_path_join (os_path_join b (sorted_directory (config selected_app))) ''docs'')"
    "os_path_isdir ?w1 (os_path_join (os_path_join b (sorted_directory (config selected_app))) ''images'')"
    by blast+
  then have 2: "os_path_isdir ?w1 ''/base/sorted/docs''" "os_path_isdir ?w1 ''/base/sorted/images''"
    by (simp_all add: b' selected_app_def sorter_config_def os_path_join_def)
  have 3: "\<not> os_path_isdir sorter_world ''/base/sorted/images''"
    by (simp add: sorter_world_def fs_defs)
  from sorter_prepare 1 2 3 show ?thesis by simp
qed

end
